theory Spec2Isabelle
  imports Main "HOL-Library.Word"
begin

section \<open>Data model\<close>

text \<open>
  The embedding covers \<^verbatim>\<open>tcp_client_v2\<close> of \<^verbatim>\<open>tcpclient2.cc\<close>: the object's
  members are a record, every member function takes the object and the outside world
  and returns its C return value with both updated. The outside world is what the
  client talks to: the buffer handler (the byte ring) and the operating system. Each
  call the client makes to either of them is appended to a trace, so that "which
  calls were made, in which order, with which arguments" is a statement about a list.
  The mutex (\<^verbatim>\<open>local_locker\<close>) is not modelled: the embedding is sequential.
\<close>

type_synonym byte = "8 word"

text \<open>
  \<^verbatim>\<open>fd_set\<close>: the set of descriptors whose bit is set. An \<^verbatim>\<open>fd_set\<close> has
  \<^verbatim>\<open>FD_SETSIZE\<close> bits (1024 in \<^verbatim>\<open>sys/select.h\<close> on Linux), for the descriptors from 0 to
  \<^verbatim>\<open>FD_SETSIZE - 1\<close>. \<^verbatim>\<open>FD_SET(fd, set)\<close> with any other descriptor is undefined in C (it
  writes a bit outside the set): the source makes no range check before it, so the
  model gives that case a result of its own, the fault \<open>FdSetOutOfRange\<close>, and sets no
  bit. \<^verbatim>\<open>FD_ISSET(fd, set)\<close> is read as membership.
\<close>

type_synonym fd_set = "int set"

definition FD_SETSIZE :: int where "FD_SETSIZE = 1024"

datatype fault = FdSetOutOfRange int

definition FD_SET :: "int \<Rightarrow> fd_set \<Rightarrow> fault + fd_set" where
  "FD_SET fd s =
     (if 0 \<le> fd \<and> fd < FD_SETSIZE then Inr (insert fd s) else Inl (FdSetOutOfRange fd))"

text \<open>
  The texts handed to \<^verbatim>\<open>_MSG_ERROR\<close> and \<^verbatim>\<open>buffer_error\<close>. Each constructor stands
  for one format string of the source, with the values that fill it:
  \<^item> \<open>MsgAlreadyConnected\<close>: "TCP client asked to connect to {}:{} but is already
    connected to {}:{}";
  \<^item> \<open>MsgResolveFailed\<close>: "Could not resolve hostname {}";
  \<^item> \<open>MsgConnectFailed\<close>: "Could not connect to TCP server {}:{} ({} / errno {})";
  \<^item> \<open>MsgReadError\<close>: "TCP client error reading from {}:{} - {} (errno {})";
  \<^item> \<open>MsgReadClosed\<close>: "TCP client closing connection to {}:{}, connection closed by
    remote";
  \<^item> \<open>MsgWriteError\<close>: "TCP client error writing to {}:{} - {} (errno {})";
  \<^item> \<open>MsgWriteClosed\<close>: "TCP client connection to {}:{} closed by remote";
  \<^item> \<open>MsgEmpty\<close>: the empty string (the \<^verbatim>\<open>std::stringstream msg\<close> of \<^verbatim>\<open>connect\<close>,
    which is never written to).
\<close>

datatype message =
    MsgAlreadyConnected string "32 word" string "32 word"
  | MsgResolveFailed string
  | MsgConnectFailed string "32 word" int
  | MsgReadError string "32 word" int
  | MsgReadClosed string "32 word"
  | MsgWriteError string "32 word" int
  | MsgWriteClosed string "32 word"
  | MsgEmpty

text \<open>One entry of the trace per call that leaves the client.\<close>

datatype event =
    EvLog message                \<comment> \<open>\<^verbatim>\<open>_MSG_ERROR\<close>, the message bus\<close>
  | EvGetHostByName string bool  \<comment> \<open>name, resolved\<close>
  | EvSocket int                 \<comment> \<open>result of \<^verbatim>\<open>socket()\<close>\<close>
  | EvFcntl int                  \<comment> \<open>descriptor\<close>
  | EvConnect int int int        \<comment> \<open>descriptor, result, errno\<close>
  | EvGetSockOpt int int int     \<comment> \<open>descriptor, result, \<^verbatim>\<open>SO_ERROR\<close> value\<close>
  | EvClose int                  \<comment> \<open>descriptor\<close>
  | EvRecv int nat int int       \<comment> \<open>descriptor, length asked, result, errno\<close>
  | EvSend int nat int int       \<comment> \<open>descriptor, length asked, result, errno\<close>
  | EvTriggerReadCallback nat
  | EvReserve nat nat            \<comment> \<open>size asked, size of the region obtained\<close>
  | EvCommit nat bool            \<comment> \<open>length committed, accepted\<close>
  | EvPeek nat nat               \<comment> \<open>size asked, size of the region obtained\<close>
  | EvPeekFree
  | EvConsume nat
  | EvBufferError message        \<comment> \<open>the byte ring's error channel\<close>

record hostent =
  h_addrtype :: int
  h_addr :: "32 word"            \<comment> \<open>\<^verbatim>\<open>h_addr_list[0]\<close>\<close>

record sockaddr_in =
  sin_family :: int
  sin_addr :: "32 word"
  sin_port :: "16 word"

text \<open>The members of \<^verbatim>\<open>tcp_client_v2\<close> that the member functions read or write.\<close>

record tcp_client_v2 =
  pending_connect :: bool
  connected :: bool
  cli_fd :: int
  host :: string
  port :: "32 word"
  client_host :: "hostent option"
  client_sock :: sockaddr_in

text \<open>What the socket has for the next \<^verbatim>\<open>recv\<close>, and what the next \<^verbatim>\<open>send\<close> meets.\<close>

datatype rx_item =
    RxData "byte list"           \<comment> \<open>bytes waiting in the socket's receive queue\<close>
  | RxClosed                     \<comment> \<open>orderly shutdown by the peer: \<^verbatim>\<open>recv\<close> returns 0\<close>
  | RxErrno int                  \<comment> \<open>\<^verbatim>\<open>recv\<close> returns -1 with this errno\<close>

datatype tx_item =
    TxAccept nat                 \<comment> \<open>room for this many bytes in the socket's send queue\<close>
  | TxErrno int                  \<comment> \<open>\<^verbatim>\<open>send\<close> returns -1 with this errno\<close>

text \<open>
  The world outside the client: the buffer handler and the operating system, and the
  trace of the calls made to them.

  The operating system answers from what the world holds: the resolver's table, the
  results the next \<^verbatim>\<open>socket()\<close>, \<^verbatim>\<open>connect()\<close> and \<^verbatim>\<open>getsockopt()\<close> will give, the
  socket's receive queue and the room in its send queue; \<open>wire\<close> is every byte a
  \<^verbatim>\<open>send\<close> has handed to the kernel, in order.
\<close>

text \<open>
  Modelled from the spec: the buffer handler (\<^verbatim>\<open>buffer_handler_generic\<close>, the spec's
  Byte Ring) is not part of the sources at hand. The spec gives it as two bounded
  buffers, ingress and egress, "each tracking capacity and bytes used", with the
  operations zero-copy-reserve-ingress(capacity) \<rightarrow> (pointer, len),
  commit-ingress(pointer, len) \<rightarrow> accepted, zero-copy-peek-egress(capacity) \<rightarrow>
  (pointer, len), release-peeked-egress, advance-egress(len), report-error and
  notify-ring-full. Here they are \<open>read_capacity\<close> and \<open>read_buffer\<close> (the ingress ring:
  its size and the bytes it holds) and \<open>write_buffer\<close> (the bytes pending in the egress
  ring). The spec does not say when a reservation is shorter than asked or when a
  commit is refused, so both are left to the ring: \<open>reserve_grant\<close> bounds the region a
  reservation of a given size obtains, \<open>commit_accepts\<close> says whether the ring, holding
  so many bytes, accepts a commit of a given length. No consumer drains or fills the
  rings while a member function of the client runs.
\<close>

record world =
  read_capacity :: nat
  read_buffer :: "byte list"
  write_buffer :: "byte list"
  reserve_grant :: "nat \<Rightarrow> nat"
  commit_accepts :: "nat \<Rightarrow> nat \<Rightarrow> bool"
  dns :: "string \<Rightarrow> hostent option"
  socket_ret :: int
  socket_errno :: int
  connect_ret :: int
  connect_errno :: int
  sockopt_ret :: int
  sockopt_err :: int
  rx_queue :: "rx_item list"
  tx_queue :: "tx_item list"
  wire :: "byte list"
  trace :: "event list"

definition log_event :: "event \<Rightarrow> world \<Rightarrow> world" where
  "log_event e w = w\<lparr>trace := trace w @ [e]\<rparr>"

text \<open>The events a call added: the trace after it, without the trace before it.\<close>

definition new_events :: "world \<Rightarrow> world \<Rightarrow> event list" where
  "new_events w w' = drop (length (trace w)) (trace w')"

section \<open>The buffer handler\<close>

text \<open>Modelled from the spec: read-free-bytes, the free space of the ingress ring.\<close>

definition get_read_buffer_available :: "world \<Rightarrow> nat" where
  "get_read_buffer_available w = read_capacity w - length (read_buffer w)"

text \<open>Modelled from the spec: write-used-bytes, the bytes pending in the egress ring.\<close>

definition get_write_buffer_used :: "world \<Rightarrow> nat" where
  "get_write_buffer_used w = length (write_buffer w)"

text \<open>Modelled from the spec: notify-ring-full(hint).\<close>

definition trigger_read_callback :: "nat \<Rightarrow> world \<Rightarrow> world" where
  "trigger_read_callback n w = log_event (EvTriggerReadCallback n) w"

text \<open>
  Modelled from the spec: zero-copy-reserve-ingress(capacity) \<rightarrow> (pointer, len). The
  region obtained is never larger than asked nor than the free space.
\<close>

definition zero_copy_reserve_read_buffer_data :: "nat \<Rightarrow> world \<Rightarrow> nat \<times> world" where
  "zero_copy_reserve_read_buffer_data in_sz w =
     (let len = min (min in_sz (get_read_buffer_available w)) (reserve_grant w in_sz)
      in (len, log_event (EvReserve in_sz len) w))"

text \<open>
  Modelled from the spec: commit-ingress(pointer, len) \<rightarrow> accepted. The region is the
  list of the bytes written into it. A commit of more bytes than the region holds or
  than the ring has free is refused; any other commit is accepted or refused as
  \<open>commit_accepts\<close> says. An accepted commit appends the first \<open>n\<close> bytes of the region
  to the ingress ring, a refused one leaves the ring as it was.
\<close>

definition commit_read_buffer_data :: "byte list \<Rightarrow> nat \<Rightarrow> world \<Rightarrow> bool \<times> world" where
  "commit_read_buffer_data buf n w =
     (let ok = (n \<le> length buf \<and> n \<le> get_read_buffer_available w \<and>
                commit_accepts w (length (read_buffer w)) n)
      in (ok, log_event (EvCommit n ok)
                (if ok then w\<lparr>read_buffer := read_buffer w @ take n buf\<rparr> else w)))"

text \<open>
  Modelled from the spec: zero-copy-peek-egress(capacity) \<rightarrow> (pointer, len): the
  first bytes of the pending egress data, at most as many as asked.
\<close>

definition zero_copy_peek_write_buffer_data :: "nat \<Rightarrow> world \<Rightarrow> byte list \<times> nat \<times> world" where
  "zero_copy_peek_write_buffer_data in_sz w =
     (let buf = take in_sz (write_buffer w)
      in (buf, length buf, log_event (EvPeek in_sz (length buf)) w))"

text \<open>Modelled from the spec: release-peeked-egress(pointer).\<close>

definition peek_free_write_buffer_data :: "world \<Rightarrow> world" where
  "peek_free_write_buffer_data w = log_event EvPeekFree w"

text \<open>Modelled from the spec: advance-egress(len).\<close>

definition consume_write_buffer_data :: "nat \<Rightarrow> world \<Rightarrow> world" where
  "consume_write_buffer_data n w =
     log_event (EvConsume n) (w\<lparr>write_buffer := drop n (write_buffer w)\<rparr>)"

text \<open>Modelled from the spec: report-error(message), the ring's error channel.\<close>

definition buffer_error :: "message \<Rightarrow> world \<Rightarrow> world" where
  "buffer_error m w = log_event (EvBufferError m) w"

section \<open>The operating system\<close>

text \<open>The values of \<^verbatim>\<open>errno.h\<close> on Linux; \<^verbatim>\<open>EWOULDBLOCK\<close> is \<^verbatim>\<open>EAGAIN\<close> there.\<close>

definition EINTR :: int where "EINTR = 4"
definition EAGAIN :: int where "EAGAIN = 11"
definition EWOULDBLOCK :: int where "EWOULDBLOCK = 11"
definition EINPROGRESS :: int where "EINPROGRESS = 115"

definition gethostbyname :: "string \<Rightarrow> world \<Rightarrow> hostent option \<times> world" where
  "gethostbyname name w =
     (dns w name, log_event (EvGetHostByName name (dns w name \<noteq> None)) w)"

definition sys_socket :: "world \<Rightarrow> int \<times> int \<times> world" where
  "sys_socket w = (socket_ret w, socket_errno w, log_event (EvSocket (socket_ret w)) w)"

definition fcntl :: "int \<Rightarrow> world \<Rightarrow> world" where
  "fcntl fd w = log_event (EvFcntl fd) w"

definition sys_connect :: "int \<Rightarrow> world \<Rightarrow> int \<times> int \<times> world" where
  "sys_connect fd w =
     (connect_ret w, connect_errno w,
      log_event (EvConnect fd (connect_ret w) (connect_errno w)) w)"

definition getsockopt :: "int \<Rightarrow> world \<Rightarrow> int \<times> int \<times> world" where
  "getsockopt fd w =
     (sockopt_ret w, sockopt_err w,
      log_event (EvGetSockOpt fd (sockopt_ret w) (sockopt_err w)) w)"

definition close_fd :: "int \<Rightarrow> world \<Rightarrow> world" where
  "close_fd fd w = log_event (EvClose fd) w"

text \<open>
  \<^verbatim>\<open>recv(fd, buf, len, MSG_DONTWAIT)\<close>: result, errno, the bytes written into the
  region, the world. It never returns more than \<open>len\<close> bytes; what it leaves of a
  chunk stays at the head of the queue. An empty queue is a socket with nothing to
  read: -1 with \<^verbatim>\<open>EAGAIN\<close>.
\<close>

definition recv :: "int \<Rightarrow> nat \<Rightarrow> world \<Rightarrow> int \<times> int \<times> byte list \<times> world" where
  "recv fd len w =
     (case rx_queue w of
        [] \<Rightarrow> (- 1, EAGAIN, [], log_event (EvRecv fd len (- 1) EAGAIN) w)
      | RxData bs # q \<Rightarrow>
          (let got = take len bs; rest = drop len bs
           in (int (length got), 0, got,
               log_event (EvRecv fd len (int (length got)) 0)
                 (w\<lparr>rx_queue := (if rest = [] then q else RxData rest # q)\<rparr>)))
      | RxClosed # q \<Rightarrow> (0, 0, [], log_event (EvRecv fd len 0 0) (w\<lparr>rx_queue := q\<rparr>))
      | RxErrno e # q \<Rightarrow> (- 1, e, [], log_event (EvRecv fd len (- 1) e) (w\<lparr>rx_queue := q\<rparr>)))"

text \<open>
  \<^verbatim>\<open>send(fd, buf, len, MSG_DONTWAIT)\<close>: result, errno, the world. The kernel takes at
  most \<open>len\<close> bytes, the first ones of the region, and they go on the wire. No entry
  in the queue is a full send queue: -1 with \<^verbatim>\<open>EAGAIN\<close>.
\<close>

definition send :: "int \<Rightarrow> byte list \<Rightarrow> nat \<Rightarrow> world \<Rightarrow> int \<times> int \<times> world" where
  "send fd buf len w =
     (case tx_queue w of
        [] \<Rightarrow> (- 1, EAGAIN, log_event (EvSend fd len (- 1) EAGAIN) w)
      | TxAccept n # q \<Rightarrow>
          (let k = min n (min len (length buf))
           in (int k, 0,
               log_event (EvSend fd len (int k) 0)
                 (w\<lparr>tx_queue := q, wire := wire w @ take k buf\<rparr>)))
      | TxErrno e # q \<Rightarrow> (- 1, e, log_event (EvSend fd len (- 1) e) (w\<lparr>tx_queue := q\<rparr>)))"

section \<open>The client\<close>

text \<open>
  The constructor: \<^verbatim>\<open>pending_connect {false}, connected {false}, cli_fd {-1}\<close>. It
  leaves \<^verbatim>\<open>host\<close> empty and does not initialise \<^verbatim>\<open>port\<close>, \<^verbatim>\<open>client_host\<close> and
  \<^verbatim>\<open>client_sock\<close>; they are given zero values here, and nothing reads them before
  \<^verbatim>\<open>connect\<close> has set them.
\<close>

definition new_client :: tcp_client_v2 where
  "new_client =
     \<lparr>pending_connect = False, connected = False, cli_fd = - 1, host = [], port = 0,
      client_host = None,
      client_sock = \<lparr>sin_family = 0, sin_addr = 0, sin_port = 0\<rparr>\<rparr>"

text \<open>\<^verbatim>\<open>tcp_client_v2::disconnect\<close>\<close>

definition disconnect :: "tcp_client_v2 \<Rightarrow> world \<Rightarrow> tcp_client_v2 \<times> world" where
  "disconnect c w =
     (let w1 = (if pending_connect c \<or> connected c
                then (if cli_fd c \<ge> 0 then close_fd (cli_fd c) w else w)
                else w)
      in (c\<lparr>cli_fd := - 1, pending_connect := False, connected := False\<rparr>, w1))"

text \<open>\<^verbatim>\<open>tcp_client_v2::get_connected\<close>\<close>

definition get_connected :: "tcp_client_v2 \<Rightarrow> bool" where
  "get_connected c = (if connected c \<or> pending_connect c then True else False)"

text \<open>
  \<^verbatim>\<open>tcp_client_v2::connect\<close>. \<^verbatim>\<open>htons(in_port)\<close> keeps the low 16 bits of the port;
  the two \<^verbatim>\<open>fcntl\<close> calls are \<^verbatim>\<open>F_GETFL\<close> and \<^verbatim>\<open>F_SETFL\<close>.
\<close>

definition connect ::
  "tcp_client_v2 \<Rightarrow> world \<Rightarrow> string \<Rightarrow> 32 word \<Rightarrow> int \<times> tcp_client_v2 \<times> world" where
  "connect c w in_host in_port =
     (if connected c then
        (- 1, c, log_event (EvLog (MsgAlreadyConnected in_host in_port (host c) (port c))) w)
      else
        case gethostbyname in_host w of (he, w1) \<Rightarrow>
        (case he of
           None \<Rightarrow>
             (- 1, c\<lparr>client_host := None\<rparr>, log_event (EvLog (MsgResolveFailed in_host)) w1)
         | Some ent \<Rightarrow>
             (let c1 = c\<lparr>client_host := Some ent, host := in_host, port := in_port,
                         client_sock := \<lparr>sin_family = h_addrtype ent, sin_addr = h_addr ent,
                                         sin_port = ucast in_port\<rparr>\<rparr>
              in case sys_socket w1 of (fd, errno, w2) \<Rightarrow>
                 (let c2 = c1\<lparr>cli_fd := fd\<rparr>
                  in if cli_fd c2 < 0 then
                       (- 1, c2, log_event (EvLog (MsgConnectFailed in_host in_port errno)) w2)
                     else
                       (let w3 = fcntl (cli_fd c2) (fcntl (cli_fd c2) w2)
                        in case sys_connect (cli_fd c2) w3 of (ret, errno, w4) \<Rightarrow>
                           if ret < 0 then
                             (if errno = EINPROGRESS then
                                (0, c2\<lparr>pending_connect := True\<rparr>, w4)
                              else
                                (let w5 = log_event
                                            (EvLog (MsgConnectFailed in_host in_port errno)) w4;
                                     w6 = (if cli_fd c2 \<ge> 0 then close_fd (cli_fd c2) w5
                                           else w5);
                                     c3 = c2\<lparr>cli_fd := - 1, connected := False,
                                              pending_connect := False\<rparr>;
                                     w7 = buffer_error MsgEmpty w6
                                 in (- 1, c3, w7)))
                           else
                             (0, c2\<lparr>connected := True, pending_connect := False\<rparr>, w4))))))"

text \<open>
  \<^verbatim>\<open>tcp_client_v2::pollable_merge_set\<close>: the return value, the two sets after the call,
  and the object and the world, which the function only reads; or the fault of an
  \<^verbatim>\<open>FD_SET\<close> on a descriptor that an \<^verbatim>\<open>fd_set\<close> cannot hold.
\<close>

definition pollable_merge_set ::
  "tcp_client_v2 \<Rightarrow> world \<Rightarrow> int \<Rightarrow> fd_set \<Rightarrow> fd_set
     \<Rightarrow> fault + (int \<times> fd_set \<times> fd_set \<times> tcp_client_v2 \<times> world)" where
  "pollable_merge_set c w in_max_fd out_rset out_wset =
     (if pending_connect c then
        (case FD_SET (cli_fd c) out_wset of
           Inl f \<Rightarrow> Inl f
         | Inr out_wset1 \<Rightarrow>
             if in_max_fd < cli_fd c then Inr (cli_fd c, out_rset, out_wset1, c, w)
             else Inr (in_max_fd, out_rset, out_wset1, c, w))
      else if \<not> connected c then Inr (in_max_fd, out_rset, out_wset, c, w)
      else
        (case (if get_write_buffer_used w \<noteq> 0 then FD_SET (cli_fd c) out_wset
               else Inr out_wset) of
           Inl f \<Rightarrow> Inl f
         | Inr out_wset1 \<Rightarrow>
             (case FD_SET (cli_fd c) out_rset of
                Inl f \<Rightarrow> Inl f
              | Inr out_rset1 \<Rightarrow>
                  if in_max_fd < cli_fd c then Inr (cli_fd c, out_rset1, out_wset1, c, w)
                  else Inr (in_max_fd, out_rset1, out_wset1, c, w))))"

text \<open>
  The ways out of the read loop of \<^verbatim>\<open>pollable_poll\<close>: its condition turning false, its
  two \<^verbatim>\<open>break\<close>s and its three \<^verbatim>\<open>return 0\<close>s. \<open>ReadNotReady\<close> is the loop not being
  entered at all, the descriptor not being in the read set.
\<close>

datatype loop_exit =
    LoopCondFalse
  | BreakNoReservation
  | BreakRetry
  | ReturnReadError
  | ReturnRemoteClosed
  | ReturnCommitFailed
  | ReadNotReady

fun returned :: "loop_exit \<Rightarrow> bool" where
  "returned ReturnReadError = True"
| "returned ReturnRemoteClosed = True"
| "returned ReturnCommitFailed = True"
| "returned _ = False"

datatype step = Continue tcp_client_v2 world | Exit loop_exit tcp_client_v2 world

text \<open>
  The body of the read loop. \<^verbatim>\<open>len <= 0\<close> on a \<^verbatim>\<open>size_t\<close> is \<open>len = 0\<close>; the region
  \<^verbatim>\<open>buf\<close> holds nothing before \<^verbatim>\<open>recv\<close> has written into it.
\<close>

definition read_body :: "tcp_client_v2 \<Rightarrow> world \<Rightarrow> step" where
  "read_body c w =
     (case zero_copy_reserve_read_buffer_data (get_read_buffer_available w) w of (len, w1) \<Rightarrow>
        if len \<le> 0 then
          Exit BreakNoReservation c (snd (commit_read_buffer_data [] 0 w1))
        else
          case recv (cli_fd c) len w1 of (ret, errno, buf, w2) \<Rightarrow>
            if ret < 0 then
              (if errno = EINTR \<or> errno = EAGAIN \<or> errno = EWOULDBLOCK then
                 Exit BreakRetry c (snd (commit_read_buffer_data buf 0 w2))
               else
                 (let w3 = snd (commit_read_buffer_data buf 0 w2);
                      w4 = buffer_error (MsgReadError (host c) (port c) errno) w3
                  in case disconnect c w4 of (c', w5) \<Rightarrow> Exit ReturnReadError c' w5))
            else if ret = 0 then
              (let w3 = snd (commit_read_buffer_data buf 0 w2);
                   w4 = buffer_error (MsgReadClosed (host c) (port c)) w3
               in case disconnect c w4 of (c', w5) \<Rightarrow> Exit ReturnRemoteClosed c' w5)
            else
              (case commit_read_buffer_data buf (nat ret) w2 of (iret, w3) \<Rightarrow>
                 if \<not> iret then
                   (case disconnect c w3 of (c', w4) \<Rightarrow> Exit ReturnCommitFailed c' w4)
                 else Continue c w3))"

text \<open>Each pass of the loop that goes round again has used up free ingress space.\<close>

lemma avail_log_event [simp]:
  "get_read_buffer_available (log_event e w) = get_read_buffer_available w"
  by (simp add: log_event_def get_read_buffer_available_def)

lemma reserve_avail:
  "zero_copy_reserve_read_buffer_data n w = (len, w1) \<Longrightarrow>
     get_read_buffer_available w1 = get_read_buffer_available w \<and> len \<le> n"
  by (auto simp: zero_copy_reserve_read_buffer_data_def Let_def)

lemma recv_avail:
  "recv fd len w = (ret, errno, buf, w') \<Longrightarrow>
     get_read_buffer_available w' = get_read_buffer_available w \<and>
     (0 < ret \<longrightarrow> int (length buf) = ret)"
  by (auto simp: recv_def Let_def get_read_buffer_available_def log_event_def
      split: list.splits rx_item.splits)

lemma commit_avail:
  "commit_read_buffer_data buf n w = (True, w') \<Longrightarrow>
     get_read_buffer_available w' = get_read_buffer_available w - n \<and>
     n \<le> get_read_buffer_available w"
  by (auto simp: commit_read_buffer_data_def Let_def get_read_buffer_available_def
        log_event_def)

lemma read_body_Continue:
  assumes "read_body c w = Continue c' w'"
  shows "get_read_buffer_available w' < get_read_buffer_available w"
proof -
  obtain len w1 where
    r: "zero_copy_reserve_read_buffer_data (get_read_buffer_available w) w = (len, w1)"
    by (cases "zero_copy_reserve_read_buffer_data (get_read_buffer_available w) w")
  obtain ret errno buf w2 where v: "recv (cli_fd c) len w1 = (ret, errno, buf, w2)"
    by (cases "recv (cli_fd c) len w1") auto
  obtain iret w3 where m: "commit_read_buffer_data buf (nat ret) w2 = (iret, w3)"
    by (cases "commit_read_buffer_data buf (nat ret) w2")
  from assms r v m have pos: "0 < ret" and ok: "iret" and w': "w' = w3"
    by (auto simp: read_body_def Let_def disconnect_def split: if_splits)
  from m ok commit_avail [of buf "nat ret" w2 w3]
  have "get_read_buffer_available w3 = get_read_buffer_available w2 - nat ret"
    and "nat ret \<le> get_read_buffer_available w2" by auto
  moreover from recv_avail [OF v]
  have "get_read_buffer_available w2 = get_read_buffer_available w1" by simp
  moreover from reserve_avail [OF r]
  have "get_read_buffer_available w1 = get_read_buffer_available w" by simp
  ultimately show ?thesis using pos w' by simp
qed

function (domintros) read_loop :: "tcp_client_v2 \<Rightarrow> world \<Rightarrow> loop_exit \<times> tcp_client_v2 \<times> world" where
  "read_loop c w =
     (if connected c \<and> get_read_buffer_available w > 0 then
        (case read_body c w of
           Continue c' w' \<Rightarrow> read_loop c' w'
         | Exit e c' w' \<Rightarrow> (e, c', w'))
      else (LoopCondFalse, c, w))"
  by pat_completeness auto
termination
  by (relation "measure (\<lambda>(c, w). get_read_buffer_available w)")
     (auto dest: read_body_Continue)

text \<open>The read-class work of \<^verbatim>\<open>pollable_poll\<close>: \<^verbatim>\<open>if (FD_ISSET(cli_fd, &in_rset)) ...\<close>\<close>

definition poll_read ::
  "tcp_client_v2 \<Rightarrow> world \<Rightarrow> fd_set \<Rightarrow> loop_exit \<times> tcp_client_v2 \<times> world" where
  "poll_read c w in_rset =
     (if cli_fd c \<in> in_rset then
        read_loop c (if get_read_buffer_available w = 0 then trigger_read_callback 0 w else w)
      else (ReadNotReady, c, w))"

text \<open>The write-class work: \<^verbatim>\<open>if (connected && FD_ISSET(cli_fd, &in_wset) && ...) ...\<close>\<close>

definition poll_write :: "tcp_client_v2 \<Rightarrow> world \<Rightarrow> fd_set \<Rightarrow> int \<times> tcp_client_v2 \<times> world" where
  "poll_write c w in_wset =
     (if connected c \<and> cli_fd c \<in> in_wset \<and> get_write_buffer_used w \<noteq> 0 then
        case zero_copy_peek_write_buffer_data (get_write_buffer_used w) w of (buf, len, w1) \<Rightarrow>
        case send (cli_fd c) buf len w1 of (ret, errno, w2) \<Rightarrow>
          if ret < 0 then
            (if errno = EINTR \<or> errno = EAGAIN \<or> errno = EWOULDBLOCK then
               (0, c, peek_free_write_buffer_data w2)
             else
               (let w3 = peek_free_write_buffer_data w2;
                    w4 = buffer_error (MsgWriteError (host c) (port c) errno) w3
                in case disconnect c w4 of (c', w5) \<Rightarrow> (0, c', w5)))
          else if ret = 0 then
            (let w3 = peek_free_write_buffer_data w2;
                 w4 = buffer_error (MsgWriteClosed (host c) (port c)) w3
             in case disconnect c w4 of (c', w5) \<Rightarrow> (0, c', w5))
          else
            (0, c, consume_write_buffer_data (nat ret) (peek_free_write_buffer_data w2))
      else (0, c, w))"

text \<open>\<^verbatim>\<open>tcp_client_v2::pollable_poll\<close>\<close>

definition pollable_poll ::
  "tcp_client_v2 \<Rightarrow> world \<Rightarrow> fd_set \<Rightarrow> fd_set \<Rightarrow> int \<times> tcp_client_v2 \<times> world" where
  "pollable_poll c w in_rset in_wset =
     (if pending_connect c then
        (if cli_fd c \<in> in_wset then
           case getsockopt (cli_fd c) w of (r, e, w1) \<Rightarrow>
             if r < 0 \<or> e \<noteq> 0 then
               (let w2 = buffer_error (MsgConnectFailed (host c) (port c) e) w1;
                    w3 = (if cli_fd c \<ge> 0 then close_fd (cli_fd c) w2 else w2)
                in (0, c\<lparr>cli_fd := - 1, connected := False, pending_connect := False\<rparr>, w3))
             else (0, c\<lparr>connected := True, pending_connect := False\<rparr>, w1)
         else (0, c, w))
      else if \<not> connected c then (0, c, w)
      else
        case poll_read c w in_rset of (e, c1, w1) \<Rightarrow>
          if returned e then (0, c1, w1) else poll_write c1 w1 in_wset)"

text \<open>
  The connection state the two flags stand for. \<^verbatim>\<open>pending_connect\<close> is looked at
  first, as every member function does.
\<close>

datatype conn_state = Idle | Connecting | Connected

definition state_of :: "tcp_client_v2 \<Rightarrow> conn_state" where
  "state_of c = (if pending_connect c then Connecting
                 else if connected c then Connected else Idle)"

text \<open>
  The spec's invariant "at most one of Connecting and Connected". The constructor
  establishes it and every member function keeps it (the lemmas \<open>new_client_exclusive\<close>,
  \<open>connect_exclusive\<close>, \<open>pollable_poll_exclusive\<close> and \<open>disconnect_exclusive\<close> below), so
  on the states the client can reach \<open>state_of\<close> does not depend on which flag is
  looked at first.
\<close>

definition flags_exclusive :: "tcp_client_v2 \<Rightarrow> bool" where
  "flags_exclusive c = (\<not> (pending_connect c \<and> connected c))"

text \<open>A world and clients to run the model on.\<close>

definition example_world :: world where
  "example_world =
     \<lparr>read_capacity = 16, read_buffer = [], write_buffer = [],
      reserve_grant = (\<lambda>n. n), commit_accepts = (\<lambda>used n. True),
      dns = (\<lambda>name. None), socket_ret = - 1, socket_errno = 24,
      connect_ret = - 1, connect_errno = 111, sockopt_ret = 0, sockopt_err = 0,
      rx_queue = [], tx_queue = [], wire = [], trace = []\<rparr>"

definition example_client :: "bool \<Rightarrow> bool \<Rightarrow> int \<Rightarrow> tcp_client_v2" where
  "example_client pending conn fd =
     new_client\<lparr>pending_connect := pending, connected := conn, cli_fd := fd,
       host := ''gps'', port := 2947\<rparr>"

section \<open>Reading traces\<close>

text \<open>
  The vocabulary of the statements below. None of it is the program: these are
  functions and predicates that read the trace of a call, and a few abbreviations.
\<close>

text \<open>
  What \<^verbatim>\<open>disconnect()\<close> called on a Connecting or Connected client adds to the trace
  (the \<^verbatim>\<open>close\<close> of a descriptor that is not negative), and the client it leaves.
\<close>

definition closing :: "int \<Rightarrow> event list" where
  "closing fd = (if fd \<ge> 0 then [EvClose fd] else [])"

definition closed_client :: "tcp_client_v2 \<Rightarrow> tcp_client_v2" where
  "closed_client c = c\<lparr>cli_fd := - 1, pending_connect := False, connected := False\<rparr>"

text \<open>
  The errno values on which the source does not report an error:
  \<^verbatim>\<open>errno == EINTR || errno == EAGAIN || errno == EWOULDBLOCK\<close>.
\<close>

definition retryable :: "int \<Rightarrow> bool" where
  "retryable errno = (errno = EINTR \<or> errno = EAGAIN \<or> errno = EWOULDBLOCK)"

text \<open>
  The world with the three fields blanked that the read loop writes: two worlds that
  agree on it differ in the ingress ring, the receive queue and the trace only.
\<close>

definition outside_ingress :: "world \<Rightarrow> world" where
  "outside_ingress w = w\<lparr>read_buffer := [], rx_queue := [], trace := []\<rparr>"

text \<open>
  The ring-full hint before the read loop: \<^verbatim>\<open>trigger_read_callback(0)\<close> when the
  descriptor is read-ready and the ingress ring has no free space.
\<close>

definition read_prefix :: "bool \<Rightarrow> nat \<Rightarrow> event list" where
  "read_prefix ready a = (if ready \<and> a = 0 then [EvTriggerReadCallback 0] else [])"

text \<open>
  Bytes committed and bytes received. \<open>commit_total\<close> adds up the lengths handed to
  \<^verbatim>\<open>commit_read_buffer_data\<close>, \<open>accepted_total\<close> those of the commits the ring accepted,
  \<open>recv_total\<close> the positive results of \<^verbatim>\<open>recv\<close>. \<open>within_reservation cap\<close> walks the
  trace with the length of the region last reserved and not yet committed (\<open>cap\<close>
  before the first reservation): every commit must fit into it, and uses it up.
\<close>

fun commit_total :: "event list \<Rightarrow> nat" where
  "commit_total [] = 0"
| "commit_total (EvCommit n ok # evs) = n + commit_total evs"
| "commit_total (_ # evs) = commit_total evs"

fun accepted_total :: "event list \<Rightarrow> nat" where
  "accepted_total [] = 0"
| "accepted_total (EvCommit n ok # evs) = (if ok then n else 0) + accepted_total evs"
| "accepted_total (_ # evs) = accepted_total evs"

fun recv_total :: "event list \<Rightarrow> nat" where
  "recv_total [] = 0"
| "recv_total (EvRecv fd len ret errno # evs) =
     (if 0 < ret then nat ret else 0) + recv_total evs"
| "recv_total (_ # evs) = recv_total evs"

fun within_reservation :: "nat \<Rightarrow> event list \<Rightarrow> bool" where
  "within_reservation cap [] = True"
| "within_reservation cap (EvReserve a len # evs) = within_reservation len evs"
| "within_reservation cap (EvCommit n ok # evs) = (n \<le> cap \<and> within_reservation 0 evs)"
| "within_reservation cap (_ # evs) = within_reservation cap evs"

text \<open>
  \<open>ring_grows w w'\<close>: from \<open>w\<close> to \<open>w'\<close> the ingress ring has grown by the lengths of
  the commits accepted in between (written with sums, the numbers being naturals).
\<close>

definition ring_grows :: "world \<Rightarrow> world \<Rightarrow> bool" where
  "ring_grows w w' =
     (length (read_buffer w') + accepted_total (trace w) =
      length (read_buffer w) + accepted_total (trace w'))"

text \<open>
  A refused commit of a chunk received is a commit of \<open>n > 0\<close> bytes answered with
  false. \<open>stops_at_refused_commit fd\<close>: after the first such commit the trace holds
  the \<^verbatim>\<open>close\<close> of \<open>fd\<close> (if \<open>fd\<close> is not negative) and nothing else.
\<close>

fun commit_refused :: "event list \<Rightarrow> bool" where
  "commit_refused [] = False"
| "commit_refused (EvCommit n ok # evs) = ((0 < n \<and> \<not> ok) \<or> commit_refused evs)"
| "commit_refused (_ # evs) = commit_refused evs"

fun stops_at_refused_commit :: "int \<Rightarrow> event list \<Rightarrow> bool" where
  "stops_at_refused_commit fd [] = True"
| "stops_at_refused_commit fd (EvCommit n ok # evs) =
     (if 0 < n \<and> \<not> ok then evs = closing fd else stops_at_refused_commit fd evs)"
| "stops_at_refused_commit fd (_ # evs) = stops_at_refused_commit fd evs"

text \<open>
  The messages pushed through the ring's error channel, and the \<^verbatim>\<open>send\<close> calls with
  the length asked and the result, both in order.
\<close>

fun error_channel :: "event list \<Rightarrow> message list" where
  "error_channel [] = []"
| "error_channel (EvBufferError m # evs) = m # error_channel evs"
| "error_channel (_ # evs) = error_channel evs"

fun send_events :: "event list \<Rightarrow> (nat \<times> int) list" where
  "send_events [] = []"
| "send_events (EvSend fd len ret errno # evs) = (len, ret) # send_events evs"
| "send_events (_ # evs) = send_events evs"

text \<open>
  For the read loop: the number of reservations and of \<^verbatim>\<open>recv\<close> calls (one of each
  per pass); \<open>stop_met\<close>, the trace holds a reason for the loop to end (a reservation
  of length zero, a \<^verbatim>\<open>recv\<close> that returned no data, a refused commit of a chunk);
  \<open>recv_ends\<close>, no \<^verbatim>\<open>recv\<close> and no reservation follows a \<^verbatim>\<open>recv\<close> that returned
  no data; \<open>zero_reservation_breaks\<close>, a reservation of length zero is followed by one
  commit of zero bytes and then nothing.
\<close>

fun reserve_calls :: "event list \<Rightarrow> nat" where
  "reserve_calls [] = 0"
| "reserve_calls (EvReserve a len # evs) = Suc (reserve_calls evs)"
| "reserve_calls (_ # evs) = reserve_calls evs"

fun recv_calls :: "event list \<Rightarrow> nat" where
  "recv_calls [] = 0"
| "recv_calls (EvRecv fd len ret errno # evs) = Suc (recv_calls evs)"
| "recv_calls (_ # evs) = recv_calls evs"

fun stop_met :: "event list \<Rightarrow> bool" where
  "stop_met [] = False"
| "stop_met (EvReserve a len # evs) = (len = 0 \<or> stop_met evs)"
| "stop_met (EvRecv fd len ret errno # evs) = (ret \<le> 0 \<or> stop_met evs)"
| "stop_met (EvCommit n ok # evs) = ((0 < n \<and> \<not> ok) \<or> stop_met evs)"
| "stop_met (_ # evs) = stop_met evs"

fun recv_ends :: "event list \<Rightarrow> bool" where
  "recv_ends [] = True"
| "recv_ends (EvRecv fd len ret errno # evs) =
     (if ret \<le> 0 then recv_calls evs = 0 \<and> reserve_calls evs = 0 else recv_ends evs)"
| "recv_ends (_ # evs) = recv_ends evs"

fun zero_reservation_breaks :: "event list \<Rightarrow> bool" where
  "zero_reservation_breaks [] = True"
| "zero_reservation_breaks (EvReserve a len # evs) =
     (if len = 0 then (case evs of [EvCommit n ok] \<Rightarrow> n = 0 | _ \<Rightarrow> False)
      else zero_reservation_breaks evs)"
| "zero_reservation_breaks (_ # evs) = zero_reservation_breaks evs"

text \<open>
  The spec's error taxonomy. \<open>failure_of\<close> reads a failure off the result of a system
  call as the source tests it; \<open>kind_of_message\<close> is the kind of failure a message of
  the source reports (the empty message reports none). \<open>reported\<close>: the messages on the
  error channel are, in order, the failures met.
\<close>

datatype error_kind =
    ResolutionFailure
  | SocketCreateFailure
  | ConnectFailure
  | ReadFailure
  | WriteFailure
  | RemoteClosed

fun failure_of :: "event \<Rightarrow> error_kind option" where
  "failure_of (EvGetHostByName name ok) = (if ok then None else Some ResolutionFailure)"
| "failure_of (EvSocket r) = (if r < 0 then Some SocketCreateFailure else None)"
| "failure_of (EvConnect fd r errno) =
     (if r < 0 \<and> errno \<noteq> EINPROGRESS then Some ConnectFailure else None)"
| "failure_of (EvGetSockOpt fd r e) = (if r < 0 \<or> e \<noteq> 0 then Some ConnectFailure else None)"
| "failure_of (EvRecv fd len ret errno) =
     (if ret < 0 then (if retryable errno then None else Some ReadFailure)
      else if ret = 0 then Some RemoteClosed else None)"
| "failure_of (EvSend fd len ret errno) =
     (if ret < 0 then (if retryable errno then None else Some WriteFailure)
      else if ret = 0 then Some RemoteClosed else None)"
| "failure_of _ = None"

fun failures :: "event list \<Rightarrow> error_kind list" where
  "failures [] = []"
| "failures (ev # evs) =
     (case failure_of ev of None \<Rightarrow> failures evs | Some k \<Rightarrow> k # failures evs)"

fun kind_of_message :: "message \<Rightarrow> error_kind option" where
  "kind_of_message (MsgConnectFailed h p e) = Some ConnectFailure"
| "kind_of_message (MsgReadError h p e) = Some ReadFailure"
| "kind_of_message (MsgReadClosed h p) = Some RemoteClosed"
| "kind_of_message (MsgWriteError h p e) = Some WriteFailure"
| "kind_of_message (MsgWriteClosed h p) = Some RemoteClosed"
| "kind_of_message _ = None"

definition reported :: "event list \<Rightarrow> bool" where
  "reported evs = (map kind_of_message (error_channel evs) = map Some (failures evs))"

text \<open>
  The events the read loop adds to the trace, as an inductive description: a pass that
  goes round again is a reservation, a \<^verbatim>\<open>recv\<close> of \<open>n > 0\<close> bytes and an accepted commit
  of \<open>n\<close>; the loop ends with its condition false or with one of its five exits. The
  number is the free ingress space when the loop is entered. \<open>read_loop_trace\<close> below
  proves that the loop of the model produces such a trace.
\<close>

inductive loop_trace :: "int \<Rightarrow> string \<Rightarrow> 32 word \<Rightarrow> nat \<Rightarrow> loop_exit \<Rightarrow> event list \<Rightarrow> bool"
  for fd :: int and h :: string and p :: "32 word" where
  lt_stop: "loop_trace fd h p 0 LoopCondFalse []"
| lt_pass: "0 < n \<Longrightarrow> n \<le> len \<Longrightarrow> len \<le> a \<Longrightarrow> loop_trace fd h p (a - n) e rest \<Longrightarrow>
     loop_trace fd h p a e (EvReserve a len # EvRecv fd len (int n) 0 # EvCommit n True # rest)"
| lt_no_reservation: "0 < a \<Longrightarrow>
     loop_trace fd h p a BreakNoReservation [EvReserve a 0, EvCommit 0 b]"
| lt_retry: "0 < len \<Longrightarrow> len \<le> a \<Longrightarrow> retryable errno \<Longrightarrow>
     loop_trace fd h p a BreakRetry [EvReserve a len, EvRecv fd len (- 1) errno, EvCommit 0 b]"
| lt_read_error: "0 < len \<Longrightarrow> len \<le> a \<Longrightarrow> \<not> retryable errno \<Longrightarrow>
     loop_trace fd h p a ReturnReadError
       ([EvReserve a len, EvRecv fd len (- 1) errno, EvCommit 0 b,
         EvBufferError (MsgReadError h p errno)] @ closing fd)"
| lt_remote_closed: "0 < len \<Longrightarrow> len \<le> a \<Longrightarrow>
     loop_trace fd h p a ReturnRemoteClosed
       ([EvReserve a len, EvRecv fd len 0 0, EvCommit 0 b,
         EvBufferError (MsgReadClosed h p)] @ closing fd)"
| lt_commit_failed: "0 < n \<Longrightarrow> n \<le> len \<Longrightarrow> len \<le> a \<Longrightarrow>
     loop_trace fd h p a ReturnCommitFailed
       ([EvReserve a len, EvRecv fd len (int n) 0, EvCommit n False] @ closing fd)"

text \<open>
  The events of the write-class work: nothing, or a peek of the whole pending egress
  data, one \<^verbatim>\<open>send\<close> and what follows from its result. The first flag is the descriptor
  being write-ready, the number the pending egress bytes, the second flag whether the
  client is still connected afterwards. \<open>poll_write_trace\<close> below proves it of the
  model.
\<close>

inductive write_trace :: "int \<Rightarrow> string \<Rightarrow> 32 word \<Rightarrow> bool \<Rightarrow> nat \<Rightarrow> bool \<Rightarrow> event list \<Rightarrow> bool"
  for fd :: int and h :: string and p :: "32 word" where
  wt_idle: "\<not> ready \<or> M = 0 \<Longrightarrow> write_trace fd h p ready M True []"
| wt_retry: "0 < M \<Longrightarrow> retryable errno \<Longrightarrow>
     write_trace fd h p True M True [EvPeek M M, EvSend fd M (- 1) errno, EvPeekFree]"
| wt_error: "0 < M \<Longrightarrow> \<not> retryable errno \<Longrightarrow>
     write_trace fd h p True M False
       ([EvPeek M M, EvSend fd M (- 1) errno, EvPeekFree,
         EvBufferError (MsgWriteError h p errno)] @ closing fd)"
| wt_closed: "0 < M \<Longrightarrow>
     write_trace fd h p True M False
       ([EvPeek M M, EvSend fd M 0 0, EvPeekFree,
         EvBufferError (MsgWriteClosed h p)] @ closing fd)"
| wt_sent: "0 < k \<Longrightarrow> k \<le> M \<Longrightarrow>
     write_trace fd h p True M True
       [EvPeek M M, EvSend fd M (int k) 0, EvPeekFree, EvConsume k]"

text \<open>
  A world in which every name resolves (to 127.0.0.1); \<^verbatim>\<open>socket()\<close> still fails in
  it, as in \<open>example_world\<close>.
\<close>

definition resolving_world :: world where
  "resolving_world =
     example_world\<lparr>dns := (\<lambda>name. Some \<lparr>h_addrtype = 2, h_addr = 0x7F000001\<rparr>)\<rparr>"

text \<open>
  A world in which \<^verbatim>\<open>connect()\<close> succeeds at once on a socket whose descriptor is
  1030: the process has more than \<^verbatim>\<open>FD_SETSIZE\<close> descriptors open.
\<close>

definition crowded_world :: world where
  "crowded_world = resolving_world\<lparr>socket_ret := 1030, connect_ret := 0\<rparr>"

section \<open>The events of one service call\<close>

lemma trace_log_event [simp]: "trace (log_event e w) = trace w @ [e]"
  by (simp add: log_event_def)

lemma outside_log_event [simp]: "outside_ingress (log_event e w) = outside_ingress w"
  by (simp add: log_event_def outside_ingress_def)

lemma reserve_trace:
  "zero_copy_reserve_read_buffer_data n w = (len, w1) \<Longrightarrow>
     w1 = log_event (EvReserve n len) w \<and> len \<le> n"
  by (auto simp: zero_copy_reserve_read_buffer_data_def Let_def)

lemma recv_trace:
  "recv fd len w = (ret, errno, buf, w2) \<Longrightarrow>
     trace w2 = trace w @ [EvRecv fd len ret errno] \<and>
     outside_ingress w2 = outside_ingress w \<and>
     (ret = - 1 \<or> (0 \<le> ret \<and> errno = 0 \<and> nat ret \<le> len))"
  by (auto simp: recv_def Let_def log_event_def outside_ingress_def
      split: list.splits rx_item.splits)

lemma commit_trace:
  "commit_read_buffer_data buf n w = (ok, w3) \<Longrightarrow>
     trace w3 = trace w @ [EvCommit n ok] \<and> outside_ingress w3 = outside_ingress w"
  by (auto simp: commit_read_buffer_data_def Let_def log_event_def outside_ingress_def split: if_splits)

lemma disconnect_trace:
  "connected c \<Longrightarrow> disconnect c w = (c', w') \<Longrightarrow>
     c' = closed_client c \<and> trace w' = trace w @ closing (cli_fd c) \<and>
     outside_ingress w' = outside_ingress w"
  by (auto simp: disconnect_def closed_client_def closing_def close_fd_def)

lemma read_body_Exit_cases:
  assumes "read_body c w = Exit e c' w'"
    and "zero_copy_reserve_read_buffer_data (get_read_buffer_available w) w = (len, w1)"
    and "recv (cli_fd c) len w1 = (ret, errno, buf, w2)"
  shows
   "(len = 0 \<and> e = BreakNoReservation \<and> c' = c \<and>
       commit_read_buffer_data [] 0 w1 = (fst (commit_read_buffer_data [] 0 w1), w')) \<or>
    (0 < len \<and> ret < 0 \<and> retryable errno \<and> e = BreakRetry \<and> c' = c \<and>
       commit_read_buffer_data buf 0 w2 = (fst (commit_read_buffer_data buf 0 w2), w')) \<or>
    (0 < len \<and> ret < 0 \<and> \<not> retryable errno \<and> e = ReturnReadError \<and>
       disconnect c (buffer_error (MsgReadError (host c) (port c) errno)
         (snd (commit_read_buffer_data buf 0 w2))) = (c', w')) \<or>
    (0 < len \<and> ret = 0 \<and> e = ReturnRemoteClosed \<and>
       disconnect c (buffer_error (MsgReadClosed (host c) (port c))
         (snd (commit_read_buffer_data buf 0 w2))) = (c', w')) \<or>
    (0 < len \<and> 0 < ret \<and> e = ReturnCommitFailed \<and>
       \<not> fst (commit_read_buffer_data buf (nat ret) w2) \<and>
       disconnect c (snd (commit_read_buffer_data buf (nat ret) w2)) = (c', w'))"
  using assms
  by (auto simp: read_body_def Let_def retryable_def split: if_splits prod.splits)

lemma read_body_Continue_cases:
  assumes "read_body c w = Continue c' w'"
    and "zero_copy_reserve_read_buffer_data (get_read_buffer_available w) w = (len, w1)"
    and "recv (cli_fd c) len w1 = (ret, errno, buf, w2)"
  shows "0 < len \<and> 0 < ret \<and> c' = c \<and> commit_read_buffer_data buf (nat ret) w2 = (True, w')"
  using assms
  by (auto simp: read_body_def Let_def split: if_splits prod.splits)

lemma read_body_Continue_trace:
  assumes "read_body c w = Continue c' w'"
  shows "c' = c \<and> outside_ingress w' = outside_ingress w \<and>
     (\<exists>len n. 0 < n \<and> n \<le> len \<and> len \<le> get_read_buffer_available w \<and>
        get_read_buffer_available w' = get_read_buffer_available w - n \<and>
        trace w' = trace w @ [EvReserve (get_read_buffer_available w) len,
           EvRecv (cli_fd c) len (int n) 0, EvCommit n True])"
proof -
  obtain len w1 where
    r: "zero_copy_reserve_read_buffer_data (get_read_buffer_available w) w = (len, w1)"
    by (cases "zero_copy_reserve_read_buffer_data (get_read_buffer_available w) w")
  obtain ret errno buf w2 where v: "recv (cli_fd c) len w1 = (ret, errno, buf, w2)"
    by (cases "recv (cli_fd c) len w1") auto
  from read_body_Continue_cases [OF assms r v]
  have pos: "0 < ret" and c': "c' = c"
    and m: "commit_read_buffer_data buf (nat ret) w2 = (True, w')" by simp_all
  from reserve_trace [OF r]
  have w1: "w1 = log_event (EvReserve (get_read_buffer_available w) len) w"
    and len: "len \<le> get_read_buffer_available w" by simp_all
  from recv_trace [OF v] pos
  have t2: "trace w2 = trace w1 @ [EvRecv (cli_fd c) len ret errno]"
    and o2: "outside_ingress w2 = outside_ingress w1"
    and e0: "errno = 0" and le: "nat ret \<le> len" by auto
  from commit_trace [OF m]
  have t3: "trace w' = trace w2 @ [EvCommit (nat ret) True]"
    and o3: "outside_ingress w' = outside_ingress w2" by simp_all
  from commit_avail [OF m] recv_avail [OF v] w1
  have av: "get_read_buffer_available w' = get_read_buffer_available w - nat ret" by simp
  have "trace w' = trace w @ [EvReserve (get_read_buffer_available w) len,
           EvRecv (cli_fd c) len (int (nat ret)) 0, EvCommit (nat ret) True]"
    using t3 t2 w1 e0 pos by simp
  moreover have "outside_ingress w' = outside_ingress w" using o3 o2 w1 by simp
  moreover have "0 < nat ret" using pos by simp
  ultimately show ?thesis using c' le len av by blast
qed

lemma read_body_Exit_trace:
  assumes con: "connected c" and pos: "0 < get_read_buffer_available w"
    and ex: "read_body c w = Exit e c' w'"
  shows "c' = (if returned e then closed_client c else c) \<and>
     outside_ingress w' = outside_ingress w \<and>
     (\<exists>evs. trace w' = trace w @ evs \<and>
        loop_trace (cli_fd c) (host c) (port c) (get_read_buffer_available w) e evs)"
proof -
  obtain len w1 where
    r: "zero_copy_reserve_read_buffer_data (get_read_buffer_available w) w = (len, w1)"
    by (cases "zero_copy_reserve_read_buffer_data (get_read_buffer_available w) w")
  obtain ret errno buf w2 where v: "recv (cli_fd c) len w1 = (ret, errno, buf, w2)"
    by (cases "recv (cli_fd c) len w1") auto
  from reserve_trace [OF r]
  have w1: "w1 = log_event (EvReserve (get_read_buffer_available w) len) w"
    and len: "len \<le> get_read_buffer_available w" by simp_all
  from recv_trace [OF v]
  have t2: "trace w2 = trace w @ [EvReserve (get_read_buffer_available w) len,
              EvRecv (cli_fd c) len ret errno]"
    and o2: "outside_ingress w2 = outside_ingress w"
    and rv: "ret = - 1 \<or> (0 \<le> ret \<and> errno = 0 \<and> nat ret \<le> len)"
    using w1 by simp_all
  let ?a = "get_read_buffer_available w"
  let ?L = "loop_trace (cli_fd c) (host c) (port c) ?a"
  from read_body_Exit_cases [OF ex r v]
  consider
    (none) "len = 0" "e = BreakNoReservation" "c' = c"
      "commit_read_buffer_data [] 0 w1 = (fst (commit_read_buffer_data [] 0 w1), w')"
  | (retry) "0 < len" "ret < 0" "retryable errno" "e = BreakRetry" "c' = c"
      "commit_read_buffer_data buf 0 w2 = (fst (commit_read_buffer_data buf 0 w2), w')"
  | (err) "0 < len" "ret < 0" "\<not> retryable errno" "e = ReturnReadError"
      "disconnect c (buffer_error (MsgReadError (host c) (port c) errno)
         (snd (commit_read_buffer_data buf 0 w2))) = (c', w')"
  | (closed) "0 < len" "ret = 0" "e = ReturnRemoteClosed"
      "disconnect c (buffer_error (MsgReadClosed (host c) (port c))
         (snd (commit_read_buffer_data buf 0 w2))) = (c', w')"
  | (refused) "0 < len" "0 < ret" "e = ReturnCommitFailed"
      "\<not> fst (commit_read_buffer_data buf (nat ret) w2)"
      "disconnect c (snd (commit_read_buffer_data buf (nat ret) w2)) = (c', w')"
    by blast
  then show ?thesis
  proof cases
    case none
    from commit_trace [OF none(4)] w1 none(1)
    have "trace w' = trace w @ [EvReserve ?a 0, EvCommit 0 (fst (commit_read_buffer_data [] 0 w1))]"
      and "outside_ingress w' = outside_ingress w" by simp_all
    with none pos show ?thesis by (auto intro: lt_no_reservation)
  next
    case retry
    from rv retry(2) have r1: "ret = - 1" by auto
    from commit_trace [OF retry(6)] t2 o2 r1
    have "trace w' = trace w @ [EvReserve ?a len, EvRecv (cli_fd c) len (- 1) errno,
             EvCommit 0 (fst (commit_read_buffer_data buf 0 w2))]"
      and "outside_ingress w' = outside_ingress w" by simp_all
    with retry len show ?thesis by (auto intro: lt_retry)
  next
    case err
    from rv err(2) have r1: "ret = - 1" by auto
    obtain ok w3 where m: "commit_read_buffer_data buf 0 w2 = (ok, w3)"
      by (cases "commit_read_buffer_data buf 0 w2")
    from disconnect_trace [OF con err(5)] commit_trace [OF m] m t2 o2 r1
    have "trace w' = trace w @ ([EvReserve ?a len, EvRecv (cli_fd c) len (- 1) errno,
             EvCommit 0 ok, EvBufferError (MsgReadError (host c) (port c) errno)]
             @ closing (cli_fd c))"
      and "outside_ingress w' = outside_ingress w" and "c' = closed_client c"
      by (simp_all add: buffer_error_def)
    with err len show ?thesis using lt_read_error [of len ?a errno "cli_fd c" "host c" "port c" ok]
      by auto
  next
    case closed
    obtain ok w3 where m: "commit_read_buffer_data buf 0 w2 = (ok, w3)"
      by (cases "commit_read_buffer_data buf 0 w2")
    from rv closed(2) have e0: "errno = 0" by auto
    from disconnect_trace [OF con closed(4)] commit_trace [OF m] m t2 o2 closed(2) e0
    have "trace w' = trace w @ ([EvReserve ?a len, EvRecv (cli_fd c) len 0 0,
             EvCommit 0 ok, EvBufferError (MsgReadClosed (host c) (port c))]
             @ closing (cli_fd c))"
      and "outside_ingress w' = outside_ingress w" and "c' = closed_client c"
      by (simp_all add: buffer_error_def)
    with closed len show ?thesis using lt_remote_closed [of len ?a "cli_fd c" "host c" "port c" ok]
      by auto
  next
    case refused
    obtain ok w3 where m: "commit_read_buffer_data buf (nat ret) w2 = (ok, w3)"
      by (cases "commit_read_buffer_data buf (nat ret) w2")
    from rv refused(2) have e0: "errno = 0" and le: "nat ret \<le> len" by auto
    from m refused(4) have nok: "\<not> ok" by simp
    from disconnect_trace [OF con refused(5)] commit_trace [OF m] m t2 o2 e0 nok refused(2)
    have "trace w' = trace w @ ([EvReserve ?a len, EvRecv (cli_fd c) len (int (nat ret)) 0,
             EvCommit (nat ret) False] @ closing (cli_fd c))"
      and "outside_ingress w' = outside_ingress w" and "c' = closed_client c"
      by simp_all
    with refused len le show ?thesis
      using lt_commit_failed [of "nat ret" len ?a "cli_fd c" "host c" "port c"]
      by auto
  qed
qed

lemma read_loop_trace:
  "connected c \<Longrightarrow> read_loop c w = (e, c', w') \<Longrightarrow>
     c' = (if returned e then closed_client c else c) \<and>
     outside_ingress w' = outside_ingress w \<and>
     (\<exists>evs. trace w' = trace w @ evs \<and>
        loop_trace (cli_fd c) (host c) (port c) (get_read_buffer_available w) e evs)"
proof (induction c w arbitrary: e c' w' rule: read_loop.induct)
  case (1 c w)
  show ?case
  proof (cases "0 < get_read_buffer_available w")
    case False
    with "1.prems" show ?thesis by (auto intro: lt_stop)
  next
    case True
    note pos = this
    show ?thesis
    proof (cases "read_body c w")
      case (Continue c1 w1)
      from read_body_Continue_trace [OF Continue] obtain len n where
        c1: "c1 = c" and o1: "outside_ingress w1 = outside_ingress w"
        and n: "0 < n" "n \<le> len" "len \<le> get_read_buffer_available w"
        and av: "get_read_buffer_available w1 = get_read_buffer_available w - n"
        and t1: "trace w1 = trace w @ [EvReserve (get_read_buffer_available w) len,
           EvRecv (cli_fd c) len (int n) 0, EvCommit n True]" by blast
      from "1.prems" pos Continue have rec: "read_loop c1 w1 = (e, c', w')" by simp
      from "1.IH" [OF _ Continue _ rec] "1.prems"(1) pos c1
      obtain evs where c': "c' = (if returned e then closed_client c else c)"
        and o': "outside_ingress w' = outside_ingress w1"
        and t': "trace w' = trace w1 @ evs"
        and L: "loop_trace (cli_fd c) (host c) (port c) (get_read_buffer_available w1) e evs"
        by auto
      from L av n have "loop_trace (cli_fd c) (host c) (port c) (get_read_buffer_available w) e
          (EvReserve (get_read_buffer_available w) len # EvRecv (cli_fd c) len (int n) 0
             # EvCommit n True # evs)"
        by (auto intro: lt_pass)
      with c' o' o1 t' t1 show ?thesis by simp
    next
      case (Exit e1 c1 w1)
      with "1.prems" pos have "e1 = e" "c1 = c'" "w1 = w'" by simp_all
      with read_body_Exit_trace [OF "1.prems"(1) pos] Exit show ?thesis by simp
    qed
  qed
qed

lemma poll_write_inactive:
  "\<not> (connected c \<and> cli_fd c \<in> ws \<and> write_buffer w \<noteq> []) \<Longrightarrow> poll_write c w ws = (0, c, w)"
  by (auto simp: poll_write_def get_write_buffer_used_def)

lemma poll_write_empty_queue:
  assumes "connected c" "cli_fd c \<in> ws" "write_buffer w \<noteq> []" "tx_queue w = []"
  shows "poll_write c w ws =
     (0, c, w\<lparr>trace := trace w @ [EvPeek (length (write_buffer w)) (length (write_buffer w)),
        EvSend (cli_fd c) (length (write_buffer w)) (- 1) EAGAIN, EvPeekFree]\<rparr>)"
  using assms
  by (simp add: poll_write_def get_write_buffer_used_def zero_copy_peek_write_buffer_data_def
        send_def peek_free_write_buffer_data_def log_event_def Let_def)

lemma poll_write_errno:
  assumes "connected c" "cli_fd c \<in> ws" "write_buffer w \<noteq> []" "tx_queue w = TxErrno e # q"
  shows "poll_write c w ws =
     (if retryable e then
        (0, c, w\<lparr>tx_queue := q,
           trace := trace w @ [EvPeek (length (write_buffer w)) (length (write_buffer w)),
             EvSend (cli_fd c) (length (write_buffer w)) (- 1) e, EvPeekFree]\<rparr>)
      else
        (0, closed_client c, w\<lparr>tx_queue := q,
           trace := trace w @ ([EvPeek (length (write_buffer w)) (length (write_buffer w)),
             EvSend (cli_fd c) (length (write_buffer w)) (- 1) e, EvPeekFree,
             EvBufferError (MsgWriteError (host c) (port c) e)] @ closing (cli_fd c))\<rparr>))"
  using assms
  by (simp add: poll_write_def get_write_buffer_used_def zero_copy_peek_write_buffer_data_def
        send_def peek_free_write_buffer_data_def log_event_def Let_def retryable_def
        buffer_error_def disconnect_def close_fd_def closed_client_def closing_def)

lemma poll_write_accept:
  assumes "connected c" "cli_fd c \<in> ws" "write_buffer w \<noteq> []" "tx_queue w = TxAccept n # q"
  shows "poll_write c w ws =
     (if n = 0 then
        (0, closed_client c, w\<lparr>tx_queue := q,
           trace := trace w @ ([EvPeek (length (write_buffer w)) (length (write_buffer w)),
             EvSend (cli_fd c) (length (write_buffer w)) 0 0, EvPeekFree,
             EvBufferError (MsgWriteClosed (host c) (port c))] @ closing (cli_fd c))\<rparr>)
      else
        (0, c, w\<lparr>write_buffer := drop (min n (length (write_buffer w))) (write_buffer w),
           tx_queue := q,
           wire := wire w @ take (min n (length (write_buffer w))) (write_buffer w),
           trace := trace w @ [EvPeek (length (write_buffer w)) (length (write_buffer w)),
             EvSend (cli_fd c) (length (write_buffer w))
               (int (min n (length (write_buffer w)))) 0,
             EvPeekFree, EvConsume (min n (length (write_buffer w)))]\<rparr>))"
  using assms
  by (simp add: poll_write_def get_write_buffer_used_def zero_copy_peek_write_buffer_data_def
        send_def peek_free_write_buffer_data_def log_event_def Let_def consume_write_buffer_data_def
        buffer_error_def disconnect_def close_fd_def closed_client_def closing_def min_def)

lemma poll_write_ret: "fst (poll_write c w ws) = 0"
  by (simp add: poll_write_def Let_def split: prod.splits)

lemma poll_write_trace:
  assumes con: "connected c" and pw: "poll_write c w ws = (ret, c', w')"
  shows "\<exists>still evs. trace w' = trace w @ evs \<and>
     write_trace (cli_fd c) (host c) (port c) (cli_fd c \<in> ws) (length (write_buffer w))
       still evs \<and>
     c' = (if still then c else closed_client c)"
proof (cases "cli_fd c \<in> ws \<and> write_buffer w \<noteq> []")
  case False
  then have "poll_write c w ws = (0, c, w)" by (simp add: poll_write_inactive)
  with pw have "c' = c" "trace w' = trace w @ []" by simp_all
  moreover from False
  have "write_trace (cli_fd c) (host c) (port c) (cli_fd c \<in> ws) (length (write_buffer w)) True []"
    by (auto intro: wt_idle)
  ultimately show ?thesis by (intro exI [of _ True] exI [of _ "[]"]) simp
next
  case True
  then have rdy: "cli_fd c \<in> ws" and ne: "write_buffer w \<noteq> []" by simp_all
  let ?M = "length (write_buffer w)"
  let ?W = "write_trace (cli_fd c) (host c) (port c) True ?M"
  from ne have M: "0 < ?M" by simp
  show ?thesis
  proof (cases "tx_queue w")
    case Nil
    from poll_write_empty_queue [OF con rdy ne Nil] pw
    have "c' = c" and "trace w' = trace w @ [EvPeek ?M ?M, EvSend (cli_fd c) ?M (- 1) EAGAIN,
        EvPeekFree]" by auto
    moreover have "?W True [EvPeek ?M ?M, EvSend (cli_fd c) ?M (- 1) EAGAIN, EvPeekFree]"
      using M by (intro wt_retry) (simp_all add: retryable_def)
    ultimately show ?thesis using rdy by (intro exI [of _ True]) auto
  next
    case (Cons x q)
    show ?thesis
    proof (cases x)
      case (TxErrno e)
      show ?thesis
      proof (cases "retryable e")
        case True
        with poll_write_errno [OF con rdy ne, of e q] Cons TxErrno pw
        have "c' = c" and "trace w' = trace w @ [EvPeek ?M ?M, EvSend (cli_fd c) ?M (- 1) e,
            EvPeekFree]" by auto
        moreover have "?W True [EvPeek ?M ?M, EvSend (cli_fd c) ?M (- 1) e, EvPeekFree]"
          using M True by (intro wt_retry)
        ultimately show ?thesis using rdy by (intro exI [of _ True]) auto
      next
        case False
        with poll_write_errno [OF con rdy ne, of e q] Cons TxErrno pw
        have "c' = closed_client c" and "trace w' = trace w @ ([EvPeek ?M ?M,
            EvSend (cli_fd c) ?M (- 1) e, EvPeekFree,
            EvBufferError (MsgWriteError (host c) (port c) e)] @ closing (cli_fd c))" by auto
        moreover have "?W False ([EvPeek ?M ?M,
            EvSend (cli_fd c) ?M (- 1) e, EvPeekFree,
            EvBufferError (MsgWriteError (host c) (port c) e)] @ closing (cli_fd c))"
          using M False by (intro wt_error)
        ultimately show ?thesis using rdy by (intro exI [of _ False]) auto
      qed
    next
      case (TxAccept n)
      show ?thesis
      proof (cases "n = 0")
        case True
        with poll_write_accept [OF con rdy ne, of n q] Cons TxAccept pw
        have "c' = closed_client c" and "trace w' = trace w @ ([EvPeek ?M ?M,
            EvSend (cli_fd c) ?M 0 0, EvPeekFree,
            EvBufferError (MsgWriteClosed (host c) (port c))] @ closing (cli_fd c))" by auto
        moreover have "?W False ([EvPeek ?M ?M,
            EvSend (cli_fd c) ?M 0 0, EvPeekFree,
            EvBufferError (MsgWriteClosed (host c) (port c))] @ closing (cli_fd c))"
          using M by (intro wt_closed)
        ultimately show ?thesis using rdy by (intro exI [of _ False]) auto
      next
        case False
        let ?k = "min n ?M"
        from False poll_write_accept [OF con rdy ne, of n q] Cons TxAccept pw
        have "c' = c" and "trace w' = trace w @ [EvPeek ?M ?M,
            EvSend (cli_fd c) ?M (int ?k) 0, EvPeekFree, EvConsume ?k]" by auto
        moreover have "?W True [EvPeek ?M ?M,
            EvSend (cli_fd c) ?M (int ?k) 0, EvPeekFree, EvConsume ?k]"
          using M False by (intro wt_sent) simp_all
        ultimately show ?thesis using rdy by (intro exI [of _ True]) auto
      qed
    qed
  qed
qed

lemma poll_read_trace:
  assumes con: "connected c" and pr: "poll_read c w rs = (e, c1, w1)"
  shows "c1 = (if returned e then closed_client c else c) \<and>
     outside_ingress w1 = outside_ingress w \<and>
     (\<exists>lev. trace w1 = trace w @ read_prefix (cli_fd c \<in> rs) (get_read_buffer_available w) @ lev \<and>
        (if cli_fd c \<in> rs
         then loop_trace (cli_fd c) (host c) (port c) (get_read_buffer_available w) e lev
         else e = ReadNotReady \<and> lev = []))"
proof (cases "cli_fd c \<in> rs")
  case False
  with pr show ?thesis by (auto simp: poll_read_def read_prefix_def)
next
  case True
  let ?w0 = "if get_read_buffer_available w = 0 then trigger_read_callback 0 w else w"
  from True pr have rl: "read_loop c ?w0 = (e, c1, w1)" by (simp add: poll_read_def)
  have av: "get_read_buffer_available ?w0 = get_read_buffer_available w"
    by (simp add: trigger_read_callback_def)
  have t0: "trace ?w0 = trace w @ read_prefix True (get_read_buffer_available w)"
    by (simp add: trigger_read_callback_def read_prefix_def)
  have o0: "outside_ingress ?w0 = outside_ingress w"
    by (simp add: trigger_read_callback_def)
  from read_loop_trace [OF con rl] obtain lev where
    "c1 = (if returned e then closed_client c else c)"
    "outside_ingress w1 = outside_ingress ?w0"
    "trace w1 = trace ?w0 @ lev"
    "loop_trace (cli_fd c) (host c) (port c) (get_read_buffer_available ?w0) e lev"
    by blast
  with av t0 o0 True show ?thesis by (intro conjI exI [of _ lev]) simp_all
qed

lemma outside_ingress_fields:
  assumes "outside_ingress w1 = outside_ingress w"
  shows "write_buffer w1 = write_buffer w" and "tx_queue w1 = tx_queue w" and "wire w1 = wire w"
    and "read_capacity w1 = read_capacity w"
proof -
  from assms have "write_buffer (outside_ingress w1) = write_buffer (outside_ingress w)" by simp
  then show "write_buffer w1 = write_buffer w" by (simp add: outside_ingress_def)
  from assms have "tx_queue (outside_ingress w1) = tx_queue (outside_ingress w)" by simp
  then show "tx_queue w1 = tx_queue w" by (simp add: outside_ingress_def)
  from assms have "wire (outside_ingress w1) = wire (outside_ingress w)" by simp
  then show "wire w1 = wire w" by (simp add: outside_ingress_def)
  from assms have "read_capacity (outside_ingress w1) = read_capacity (outside_ingress w)" by simp
  then show "read_capacity w1 = read_capacity w" by (simp add: outside_ingress_def)
qed

lemma closed_client_fields [simp]:
  "cli_fd (closed_client c) = - 1" "\<not> pending_connect (closed_client c)"
  "\<not> connected (closed_client c)" "host (closed_client c) = host c"
  "port (closed_client c) = port c"
  by (simp_all add: closed_client_def)

lemma pollable_poll_connected:
  assumes np: "\<not> pending_connect c" and con: "connected c"
    and pp: "pollable_poll c w rs ws = (ret, c', w')"
  shows "ret = 0 \<and> (\<exists>e lev still wevs.
     trace w' = trace w @ read_prefix (cli_fd c \<in> rs) (get_read_buffer_available w) @ lev @ wevs \<and>
     (if cli_fd c \<in> rs
      then loop_trace (cli_fd c) (host c) (port c) (get_read_buffer_available w) e lev
      else e = ReadNotReady \<and> lev = []) \<and>
     (if returned e then wevs = [] \<and> c' = closed_client c
      else write_trace (cli_fd c) (host c) (port c) (cli_fd c \<in> ws)
             (length (write_buffer w)) still wevs \<and>
           c' = (if still then c else closed_client c)))"
proof -
  obtain e c1 w1 where pr: "poll_read c w rs = (e, c1, w1)"
    by (cases "poll_read c w rs")
  from poll_read_trace [OF con pr] obtain lev where
    c1: "c1 = (if returned e then closed_client c else c)"
    and o1: "outside_ingress w1 = outside_ingress w"
    and t1: "trace w1 = trace w @ read_prefix (cli_fd c \<in> rs) (get_read_buffer_available w) @ lev"
    and L: "if cli_fd c \<in> rs
      then loop_trace (cli_fd c) (host c) (port c) (get_read_buffer_available w) e lev
      else e = ReadNotReady \<and> lev = []"
    by blast
  show ?thesis
  proof (cases "returned e")
    case True
    with np con pr pp c1 have "ret = 0" "c' = closed_client c" "w' = w1"
      by (simp_all add: pollable_poll_def)
    with t1 L True show ?thesis
      by (intro conjI exI [of _ e] exI [of _ lev] exI [of _ True] exI [of _ "[]"]) simp_all
  next
    case False
    with np con pr pp c1 have pw: "poll_write c w1 ws = (ret, c', w')"
      by (simp add: pollable_poll_def)
    from poll_write_ret [of c w1 ws] pw have r0: "ret = 0" by simp
    from poll_write_trace [OF con pw] outside_ingress_fields(1) [OF o1]
    obtain still wevs where "trace w' = trace w1 @ wevs"
      "write_trace (cli_fd c) (host c) (port c) (cli_fd c \<in> ws) (length (write_buffer w))
         still wevs" "c' = (if still then c else closed_client c)"
      by auto
    with t1 L False r0 show ?thesis
      by (intro conjI exI [of _ e] exI [of _ lev] exI [of _ still] exI [of _ wevs]) simp_all
  qed
qed

lemma pollable_poll_pending:
  assumes "pending_connect c"
  shows "pollable_poll c w rs ws =
     (if cli_fd c \<in> ws then
        (if sockopt_ret w < 0 \<or> sockopt_err w \<noteq> 0 then
           (0, closed_client c,
            w\<lparr>trace := trace w @ ([EvGetSockOpt (cli_fd c) (sockopt_ret w) (sockopt_err w),
               EvBufferError (MsgConnectFailed (host c) (port c) (sockopt_err w))]
               @ closing (cli_fd c))\<rparr>)
         else
           (0, c\<lparr>connected := True, pending_connect := False\<rparr>,
            w\<lparr>trace := trace w @
               [EvGetSockOpt (cli_fd c) (sockopt_ret w) (sockopt_err w)]\<rparr>))
      else (0, c, w))"
  using assms
  by (simp add: pollable_poll_def getsockopt_def buffer_error_def close_fd_def
        log_event_def Let_def closed_client_def closing_def)

lemma new_events_append: "trace w' = trace w @ evs \<Longrightarrow> new_events w w' = evs"
  by (simp add: new_events_def)

lemma commit_total_append: "commit_total (xs @ ys) = commit_total xs + commit_total ys"
  by (induction xs rule: commit_total.induct) simp_all

lemma recv_total_append: "recv_total (xs @ ys) = recv_total xs + recv_total ys"
  by (induction xs rule: recv_total.induct) simp_all

lemma loop_trace_totals:
  "loop_trace fd h p a e evs \<Longrightarrow> commit_total evs = recv_total evs"
  by (induction rule: loop_trace.induct) (simp_all add: closing_def)

lemma loop_trace_within:
  "loop_trace fd h p a e evs \<Longrightarrow> (\<And>c. within_reservation c ys) \<Longrightarrow>
     within_reservation cap (evs @ ys)"
  by (induction arbitrary: cap rule: loop_trace.induct) (simp_all add: closing_def)

lemma write_trace_ingress:
  "write_trace fd h p ready M still evs \<Longrightarrow>
     commit_total evs = 0 \<and> recv_total evs = 0 \<and> within_reservation cap evs"
  by (induction rule: write_trace.induct) (simp_all add: closing_def)

lemma read_prefix_ingress:
  "commit_total (read_prefix r a) = 0" "recv_total (read_prefix r a) = 0"
  "within_reservation cap (read_prefix r a @ evs) = within_reservation cap evs"
  by (simp_all add: read_prefix_def)

lemma commit_refused_append:
  "commit_refused (xs @ ys) = (commit_refused xs \<or> commit_refused ys)"
  by (induction xs rule: commit_refused.induct) simp_all

lemma error_channel_append: "error_channel (xs @ ys) = error_channel xs @ error_channel ys"
  by (induction xs rule: error_channel.induct) simp_all

lemma send_events_append: "send_events (xs @ ys) = send_events xs @ send_events ys"
  by (induction xs rule: send_events.induct) simp_all

lemma stops_append:
  "\<not> commit_refused xs \<Longrightarrow>
     stops_at_refused_commit fd (xs @ ys) = stops_at_refused_commit fd ys"
  by (induction xs rule: commit_refused.induct) auto

lemma loop_trace_refused:
  "loop_trace fd h p a e evs \<Longrightarrow> commit_refused evs = (e = ReturnCommitFailed)"
  by (induction rule: loop_trace.induct) (simp_all add: closing_def)

lemma loop_trace_refused_stops:
  "loop_trace fd h p a e evs \<Longrightarrow> e = ReturnCommitFailed \<Longrightarrow>
     stops_at_refused_commit fd evs \<and> error_channel evs = [] \<and> send_events evs = []"
  by (induction rule: loop_trace.induct) (simp_all add: closing_def)

lemma write_trace_no_commit:
  "write_trace fd h p ready M still evs \<Longrightarrow> \<not> commit_refused evs"
  by (induction rule: write_trace.induct) (simp_all add: closing_def)

lemma read_prefix_no_commit: "\<not> commit_refused (read_prefix r a)"
  "error_channel (read_prefix r a) = []" "send_events (read_prefix r a) = []"
  by (simp_all add: read_prefix_def)

lemma read_loop_total: "read_loop_dom (c, w)"
proof (induction "get_read_buffer_available w" arbitrary: c w rule: less_induct)
  case less
  show ?case
    by (rule read_loop.domintros) (auto dest!: read_body_Continue intro: less)
qed

lemma loop_trace_calls:
  "loop_trace fd h p a e evs \<Longrightarrow> reserve_calls evs \<le> a \<and> recv_calls evs \<le> a"
  by (induction rule: loop_trace.induct) (auto simp: closing_def)

lemma loop_trace_stop_met:
  "loop_trace fd h p a e evs \<Longrightarrow> e \<noteq> LoopCondFalse \<Longrightarrow> stop_met evs"
  by (induction rule: loop_trace.induct) (auto simp: closing_def)

lemma loop_trace_recv_ends: "loop_trace fd h p a e evs \<Longrightarrow> recv_ends evs"
  by (induction rule: loop_trace.induct) (auto simp: closing_def)

lemma loop_trace_zero_reservation:
  "loop_trace fd h p a e evs \<Longrightarrow> zero_reservation_breaks evs"
  by (induction rule: loop_trace.induct) (auto simp: closing_def)

lemma read_body_Exit_tag:
  assumes "read_body c w = Exit e c' w'"
  shows "e \<noteq> LoopCondFalse"
proof -
  obtain len w1 where
    r: "zero_copy_reserve_read_buffer_data (get_read_buffer_available w) w = (len, w1)"
    by (cases "zero_copy_reserve_read_buffer_data (get_read_buffer_available w) w")
  obtain ret errno buf w2 where v: "recv (cli_fd c) len w1 = (ret, errno, buf, w2)"
    by (cases "recv (cli_fd c) len w1") auto
  from read_body_Exit_cases [OF assms r v] show ?thesis by auto
qed

lemma read_loop_cond_false:
  "connected c \<Longrightarrow> read_loop c w = (LoopCondFalse, c', w') \<Longrightarrow>
     get_read_buffer_available w' = 0"
proof (induction c w rule: read_loop.induct)
  case (1 c w)
  show ?case
  proof (cases "0 < get_read_buffer_available w")
    case False
    with "1.prems" show ?thesis by simp
  next
    case True
    show ?thesis
    proof (cases "read_body c w")
      case (Continue c1 w1)
      from read_body_Continue_trace [OF Continue] have c1: "c1 = c" by simp
      from "1.prems" True Continue have "read_loop c1 w1 = (LoopCondFalse, c', w')" by simp
      with "1.IH" [OF _ Continue] "1.prems"(1) True c1 show ?thesis by simp
    next
      case (Exit e1 c1 w1)
      with "1.prems" True have "e1 = LoopCondFalse" by simp
      with read_body_Exit_tag [OF Exit] show ?thesis by simp
    qed
  qed
qed

lemma failures_append: "failures (xs @ ys) = failures xs @ failures ys"
  by (induction xs) (simp_all split: option.splits)

lemma reported_append: "reported xs \<Longrightarrow> reported ys \<Longrightarrow> reported (xs @ ys)"
  by (simp add: reported_def failures_append error_channel_append)

lemma reported_closing: "reported (closing fd)"
  by (simp add: reported_def closing_def)

lemma loop_trace_reported: "loop_trace fd h p a e evs \<Longrightarrow> reported evs"
  by (induction rule: loop_trace.induct) (simp_all add: reported_def closing_def)

lemma write_trace_reported: "write_trace fd h p ready M still evs \<Longrightarrow> reported evs"
  by (induction rule: write_trace.induct) (simp_all add: reported_def closing_def)

lemma read_prefix_reported: "reported (read_prefix r a)"
  by (simp add: reported_def read_prefix_def)

lemma pollable_poll_idle:
  "\<not> pending_connect c \<Longrightarrow> \<not> connected c \<Longrightarrow> pollable_poll c w rs ws = (0, c, w)"
  by (simp add: pollable_poll_def)

lemma pollable_poll_reported:
  assumes "pollable_poll c w rs ws = (ret, c', w')"
  shows "ret = 0 \<and> reported (new_events w w')"
proof (cases "pending_connect c")
  case True
  show ?thesis
  proof (cases "cli_fd c \<in> ws")
    case False
    with True assms show ?thesis
      by (auto simp: pollable_poll_pending new_events_def reported_def)
  next
    case rdy: True
    show ?thesis
    proof (cases "sockopt_ret w < 0 \<or> sockopt_err w \<noteq> 0")
      case True
      with \<open>pending_connect c\<close> rdy assms have "ret = 0"
        and "trace w' = trace w @ ([EvGetSockOpt (cli_fd c) (sockopt_ret w) (sockopt_err w),
               EvBufferError (MsgConnectFailed (host c) (port c) (sockopt_err w))]
               @ closing (cli_fd c))"
        by (auto simp: pollable_poll_pending)
      with True show ?thesis
        by (simp add: new_events_append reported_def closing_def)
    next
      case False
      with \<open>pending_connect c\<close> rdy assms have "ret = 0"
        and "trace w' = trace w @ [EvGetSockOpt (cli_fd c) (sockopt_ret w) (sockopt_err w)]"
        by (auto simp: pollable_poll_pending)
      with False show ?thesis
        by (simp add: new_events_append reported_def)
    qed
  qed
next
  case np: False
  show ?thesis
  proof (cases "connected c")
    case False
    with np assms show ?thesis
      by (auto simp: pollable_poll_idle new_events_def reported_def)
  next
    case con: True
    let ?a = "get_read_buffer_available w"
    let ?pre = "read_prefix (cli_fd c \<in> rs) ?a"
    from pollable_poll_connected [OF np con assms] obtain e lev still wevs where
      r0: "ret = 0"
      and t: "trace w' = trace w @ ?pre @ lev @ wevs"
      and L0: "if cli_fd c \<in> rs
        then loop_trace (cli_fd c) (host c) (port c) ?a e lev
        else e = ReadNotReady \<and> lev = []"
      and W: "if returned e then wevs = [] \<and> c' = closed_client c
        else write_trace (cli_fd c) (host c) (port c) (cli_fd c \<in> ws)
               (length (write_buffer w)) still wevs \<and>
             c' = (if still then c else closed_client c)"
      by blast
    from t have ev: "new_events w w' = ?pre @ lev @ wevs" by (rule new_events_append)
    have l: "reported lev"
      using L0 loop_trace_reported [of "cli_fd c" "host c" "port c" ?a e lev]
      by (cases "cli_fd c \<in> rs") (simp_all add: reported_def)
    have w: "reported wevs"
      using W write_trace_reported [of "cli_fd c" "host c" "port c" "cli_fd c \<in> ws"
          "length (write_buffer w)" still wevs]
      by (cases "returned e") (simp_all add: reported_def)
    from l w read_prefix_reported r0 show ?thesis
      by (simp add: ev reported_append)
  qed
qed

lemma connect_connected:
  "connected c \<Longrightarrow> connect c w in_host in_port =
     (- 1, c, w\<lparr>trace := trace w @
        [EvLog (MsgAlreadyConnected in_host in_port (host c) (port c))]\<rparr>)"
  by (simp add: connect_def log_event_def)

lemma connect_unresolved:
  "\<not> connected c \<Longrightarrow> dns w in_host = None \<Longrightarrow> connect c w in_host in_port =
     (- 1, c\<lparr>client_host := None\<rparr>,
      w\<lparr>trace := trace w @ [EvGetHostByName in_host False,
        EvLog (MsgResolveFailed in_host)]\<rparr>)"
  by (simp add: connect_def gethostbyname_def log_event_def)

lemma connect_no_socket:
  "\<not> connected c \<Longrightarrow> dns w in_host = Some ent \<Longrightarrow> socket_ret w < 0 \<Longrightarrow>
   connect c w in_host in_port =
     (- 1,
      c\<lparr>client_host := Some ent, host := in_host, port := in_port,
        client_sock := \<lparr>sin_family = h_addrtype ent, sin_addr = h_addr ent,
                        sin_port = ucast in_port\<rparr>,
        cli_fd := socket_ret w\<rparr>,
      w\<lparr>trace := trace w @ [EvGetHostByName in_host True, EvSocket (socket_ret w),
        EvLog (MsgConnectFailed in_host in_port (socket_errno w))]\<rparr>)"
  by (simp add: connect_def gethostbyname_def sys_socket_def log_event_def Let_def)

lemma loop_trace_no_send: "loop_trace fd h p a e evs \<Longrightarrow> send_events evs = []"
  by (induction rule: loop_trace.induct) (simp_all add: closing_def)

lemma write_trace_one_send:
  "write_trace fd h p ready M still evs \<Longrightarrow> ready \<Longrightarrow> 0 < M \<Longrightarrow>
     \<exists>r. send_events evs = [(M, r)]"
  by (induction rule: write_trace.induct) (simp_all add: closing_def)

lemma poll_read_no_send:
  assumes con: "connected c" and pr: "poll_read c w rs = (e, c1, w1)"
  shows "\<exists>revs. trace w1 = trace w @ revs \<and> send_events revs = []"
proof -
  from poll_read_trace [OF con pr] obtain lev where
    t: "trace w1 = trace w @ read_prefix (cli_fd c \<in> rs) (get_read_buffer_available w) @ lev"
    and L: "if cli_fd c \<in> rs
         then loop_trace (cli_fd c) (host c) (port c) (get_read_buffer_available w) e lev
         else e = ReadNotReady \<and> lev = []"
    by blast
  have "send_events lev = []"
    using L loop_trace_no_send [of "cli_fd c" "host c" "port c" "get_read_buffer_available w" e lev]
    by (cases "cli_fd c \<in> rs") simp_all
  then have "send_events (read_prefix (cli_fd c \<in> rs) (get_read_buffer_available w) @ lev) = []"
    by (simp add: send_events_append read_prefix_no_commit)
  with t show ?thesis by blast
qed

lemma pollable_poll_one_send:
  assumes np: "\<not> pending_connect c" and con: "connected c"
    and rdy: "cli_fd c \<in> ws" and ne: "write_buffer w \<noteq> []"
    and nr: "\<not> returned (fst (poll_read c w rs))"
    and pp: "pollable_poll c w rs ws = (ret, c1, w1)"
  shows "\<exists>r. send_events (new_events w w1) = [(length (write_buffer w), r)]"
proof -
  obtain e c0 w0 where pr: "poll_read c w rs = (e, c0, w0)"
    by (cases "poll_read c w rs")
  with nr have ne': "\<not> returned e" by simp
  from poll_read_trace [OF con pr] ne' have c0: "c0 = c"
    and o: "outside_ingress w0 = outside_ingress w" by simp_all
  from poll_read_no_send [OF con pr] obtain revs where
    t0: "trace w0 = trace w @ revs" and s0: "send_events revs = []" by blast
  from np con pr ne' pp c0 have pw: "poll_write c w0 ws = (ret, c1, w1)"
    by (simp add: pollable_poll_def)
  from poll_write_trace [OF con pw] outside_ingress_fields(1) [OF o] rdy
  obtain still wevs where t1: "trace w1 = trace w0 @ wevs"
    and W: "write_trace (cli_fd c) (host c) (port c) True (length (write_buffer w)) still wevs"
    by auto
  from write_trace_one_send [OF W] ne obtain r where
    "send_events wevs = [(length (write_buffer w), r)]" by auto
  moreover from t0 t1 have "new_events w w1 = revs @ wevs"
    by (simp add: new_events_append)
  ultimately show ?thesis using s0 by (simp add: send_events_append)
qed

lemma pollable_poll_accept:
  assumes np: "\<not> pending_connect c" and con: "connected c"
    and rdy: "cli_fd c \<in> ws" and ne: "write_buffer w \<noteq> []"
    and nr: "\<not> returned (fst (poll_read c w rs))"
    and tx: "tx_queue w = TxAccept n # q" and n: "0 < n"
    and pp: "pollable_poll c w rs ws = (ret, c1, w1)"
  shows "c1 = c"
    and "write_buffer w1 = drop (min n (length (write_buffer w))) (write_buffer w)"
    and "wire w1 = wire w @ take (min n (length (write_buffer w))) (write_buffer w)"
    and "tx_queue w1 = q"
    and "send_events (new_events w w1) =
           [(length (write_buffer w), int (min n (length (write_buffer w))))]"
proof -
  obtain e c0 w0 where pr: "poll_read c w rs = (e, c0, w0)"
    by (cases "poll_read c w rs")
  with nr have ne': "\<not> returned e" by simp
  from poll_read_trace [OF con pr] ne' have c0: "c0 = c"
    and o: "outside_ingress w0 = outside_ingress w" by simp_all
  note f = outside_ingress_fields [OF o]
  from poll_read_no_send [OF con pr] obtain revs where
    t0: "trace w0 = trace w @ revs" and s0: "send_events revs = []" by blast
  from np con pr ne' pp c0 have pw: "poll_write c w0 ws = (ret, c1, w1)"
    by (simp add: pollable_poll_def)
  from ne f(1) have ne0: "write_buffer w0 \<noteq> []" by simp
  from tx f(2) have tx0: "tx_queue w0 = TxAccept n # q" by simp
  let ?k = "min n (length (write_buffer w))"
  from poll_write_accept [OF con rdy ne0 tx0] pw n f(1)
  have r: "(ret, c1, w1) = (0, c, w0\<lparr>write_buffer := drop ?k (write_buffer w),
           tx_queue := q, wire := wire w0 @ take ?k (write_buffer w),
           trace := trace w0 @ [EvPeek (length (write_buffer w)) (length (write_buffer w)),
             EvSend (cli_fd c) (length (write_buffer w)) (int ?k) 0,
             EvPeekFree, EvConsume ?k]\<rparr>)"
    by simp
  from r show "c1 = c" by simp
  from r show "write_buffer w1 = drop ?k (write_buffer w)" by simp
  from r f(3) show "wire w1 = wire w @ take ?k (write_buffer w)" by simp
  from r show "tx_queue w1 = q" by simp
  from r t0 have "new_events w w1 = revs @ [EvPeek (length (write_buffer w)) (length (write_buffer w)),
             EvSend (cli_fd c) (length (write_buffer w)) (int ?k) 0,
             EvPeekFree, EvConsume ?k]"
    by (simp add: new_events_def)
  with s0 show "send_events (new_events w w1) = [(length (write_buffer w), int ?k)]"
    by (simp add: send_events_append)
qed

lemma accepted_total_append:
  "accepted_total (xs @ ys) = accepted_total xs + accepted_total ys"
  by (induction xs rule: accepted_total.induct) simp_all

lemma accepted_total_all:
  "\<not> commit_refused evs \<Longrightarrow> accepted_total evs = commit_total evs"
  by (induction evs rule: accepted_total.induct) auto

lemma ring_grows_refl: "ring_grows w w"
  by (simp add: ring_grows_def)

lemma ring_grows_trans: "ring_grows w w1 \<Longrightarrow> ring_grows w1 w2 \<Longrightarrow> ring_grows w w2"
  by (simp add: ring_grows_def)

lemma ring_grows_events:
  "read_buffer w' = read_buffer w \<Longrightarrow> trace w' = trace w @ evs \<Longrightarrow>
     accepted_total evs = 0 \<Longrightarrow> ring_grows w w'"
  by (simp add: ring_grows_def accepted_total_append)

lemma ring_grows_new_events:
  "ring_grows w w' \<Longrightarrow> trace w' = trace w @ evs \<Longrightarrow>
     length (read_buffer w') = length (read_buffer w) + accepted_total evs"
  by (simp add: ring_grows_def accepted_total_append)

lemma reserve_grows:
  "zero_copy_reserve_read_buffer_data n w = (len, w1) \<Longrightarrow> ring_grows w w1"
  by (auto simp: zero_copy_reserve_read_buffer_data_def Let_def log_event_def ring_grows_def
        accepted_total_append)

lemma recv_grows: "recv fd len w = (ret, errno, buf, w2) \<Longrightarrow> ring_grows w w2"
  by (auto simp: recv_def Let_def log_event_def ring_grows_def accepted_total_append
      split: list.splits rx_item.splits)

lemma commit_grows: "commit_read_buffer_data buf n w = (ok, w3) \<Longrightarrow> ring_grows w w3"
  by (auto simp: commit_read_buffer_data_def Let_def log_event_def ring_grows_def
        accepted_total_append split: if_splits)

lemma buffer_error_grows: "ring_grows w (buffer_error m w)"
  by (simp add: buffer_error_def log_event_def ring_grows_def accepted_total_append)

lemma disconnect_grows: "disconnect c w = (c', w') \<Longrightarrow> ring_grows w w'"
  by (auto simp: disconnect_def close_fd_def log_event_def ring_grows_def
        accepted_total_append split: if_splits)

lemma snd_commit_grows: "ring_grows w (snd (commit_read_buffer_data buf n w))"
  by (cases "commit_read_buffer_data buf n w") (simp add: commit_grows)

lemma read_body_grows:
  assumes "read_body c w = Continue c' w' \<or> read_body c w = Exit e c' w'"
  shows "ring_grows w w'"
proof -
  obtain len w1 where
    r: "zero_copy_reserve_read_buffer_data (get_read_buffer_available w) w = (len, w1)"
    by (cases "zero_copy_reserve_read_buffer_data (get_read_buffer_available w) w")
  obtain ret errno buf w2 where v: "recv (cli_fd c) len w1 = (ret, errno, buf, w2)"
    by (cases "recv (cli_fd c) len w1") auto
  note g1 = reserve_grows [OF r]
  note g2 = ring_grows_trans [OF g1 recv_grows [OF v]]
  from assms show ?thesis
  proof
    assume "read_body c w = Continue c' w'"
    from read_body_Continue_cases [OF this r v]
    have "commit_read_buffer_data buf (nat ret) w2 = (True, w')" by simp
    from ring_grows_trans [OF g2 commit_grows [OF this]] show ?thesis .
  next
    assume ex: "read_body c w = Exit e c' w'"
    from read_body_Exit_cases [OF ex r v]
    consider
      (none) "commit_read_buffer_data [] 0 w1 = (fst (commit_read_buffer_data [] 0 w1), w')"
    | (retry) "commit_read_buffer_data buf 0 w2 = (fst (commit_read_buffer_data buf 0 w2), w')"
    | (err) "disconnect c (buffer_error (MsgReadError (host c) (port c) errno)
         (snd (commit_read_buffer_data buf 0 w2))) = (c', w')"
    | (closed) "disconnect c (buffer_error (MsgReadClosed (host c) (port c))
         (snd (commit_read_buffer_data buf 0 w2))) = (c', w')"
    | (refused) "disconnect c (snd (commit_read_buffer_data buf (nat ret) w2)) = (c', w')"
      by blast
    then show ?thesis
    proof cases
      case none
      from ring_grows_trans [OF g1 commit_grows [OF none]] show ?thesis .
    next
      case retry
      from ring_grows_trans [OF g2 commit_grows [OF retry]] show ?thesis .
    next
      case err
      from ring_grows_trans [OF ring_grows_trans [OF ring_grows_trans [OF g2 snd_commit_grows]
          buffer_error_grows] disconnect_grows [OF err]]
      show ?thesis .
    next
      case closed
      from ring_grows_trans [OF ring_grows_trans [OF ring_grows_trans [OF g2 snd_commit_grows]
          buffer_error_grows] disconnect_grows [OF closed]]
      show ?thesis .
    next
      case refused
      from ring_grows_trans [OF ring_grows_trans [OF g2 snd_commit_grows]
          disconnect_grows [OF refused]]
      show ?thesis .
    qed
  qed
qed

lemma read_loop_grows: "read_loop c w = (e, c', w') \<Longrightarrow> ring_grows w w'"
proof (induction c w arbitrary: e c' w' rule: read_loop.induct)
  case (1 c w)
  show ?case
  proof (cases "connected c \<and> 0 < get_read_buffer_available w")
    case False
    with "1.prems" have "w' = w" by auto
    then show ?thesis by (simp add: ring_grows_refl)
  next
    case True
    show ?thesis
    proof (cases "read_body c w")
      case (Continue c1 w1)
      with "1.prems" True have "read_loop c1 w1 = (e, c', w')" by simp
      from "1.IH" [OF True Continue this] read_body_grows [of c w c1 w1] Continue
      show ?thesis by (auto intro: ring_grows_trans)
    next
      case (Exit e1 c1 w1)
      with "1.prems" True have "w1 = w'" by simp
      with read_body_grows [of c w c1 w1 e1] Exit show ?thesis by simp
    qed
  qed
qed

lemma poll_read_grows: "poll_read c w rs = (e, c', w') \<Longrightarrow> ring_grows w w'"
proof (cases "cli_fd c \<in> rs")
  case False
  assume "poll_read c w rs = (e, c', w')"
  with False show ?thesis by (simp add: poll_read_def ring_grows_refl)
next
  case True
  assume "poll_read c w rs = (e, c', w')"
  with True have rl: "read_loop c
      (if get_read_buffer_available w = 0 then trigger_read_callback 0 w else w) = (e, c', w')"
    by (simp add: poll_read_def)
  have "ring_grows w (if get_read_buffer_available w = 0 then trigger_read_callback 0 w else w)"
    by (simp add: trigger_read_callback_def log_event_def ring_grows_def accepted_total_append)
  from ring_grows_trans [OF this read_loop_grows [OF rl]] show ?thesis .
qed

lemma poll_write_grows:
  assumes "poll_write c w ws = (ret, c', w')"
  shows "ring_grows w w'"
proof (cases "connected c \<and> cli_fd c \<in> ws \<and> write_buffer w \<noteq> []")
  case False
  with assms poll_write_inactive [of c ws w] have "w' = w" by simp
  then show ?thesis by (simp add: ring_grows_refl)
next
  case True
  then have con: "connected c" and rdy: "cli_fd c \<in> ws" and ne: "write_buffer w \<noteq> []"
    by simp_all
  show ?thesis
  proof (cases "tx_queue w")
    case Nil
    from poll_write_empty_queue [OF con rdy ne Nil] assms show ?thesis
      by (auto simp: ring_grows_def accepted_total_append)
  next
    case (Cons x q)
    show ?thesis
    proof (cases x)
      case (TxErrno e)
      with poll_write_errno [OF con rdy ne, of e q] Cons assms show ?thesis
        by (auto simp: ring_grows_def accepted_total_append closing_def split: if_splits)
    next
      case (TxAccept n)
      with poll_write_accept [OF con rdy ne, of n q] Cons assms show ?thesis
        by (auto simp: ring_grows_def accepted_total_append closing_def split: if_splits)
    qed
  qed
qed

lemma pollable_poll_grows:
  assumes np: "\<not> pending_connect c" and pp: "pollable_poll c w rs ws = (ret, c', w')"
  shows "ring_grows w w'"
proof (cases "connected c")
  case False
  with np pp have "w' = w" by (simp add: pollable_poll_idle)
  then show ?thesis by (simp add: ring_grows_refl)
next
  case True
  obtain e c1 w1 where pr: "poll_read c w rs = (e, c1, w1)"
    by (cases "poll_read c w rs")
  note g = poll_read_grows [OF pr]
  show ?thesis
  proof (cases "returned e")
    case True
    with np \<open>connected c\<close> pr pp have "w' = w1" by (simp add: pollable_poll_def)
    with g show ?thesis by simp
  next
    case False
    with np \<open>connected c\<close> pr pp have "poll_write c1 w1 ws = (ret, c', w')"
      by (simp add: pollable_poll_def)
    from ring_grows_trans [OF g poll_write_grows [OF this]] show ?thesis .
  qed
qed

text \<open>\<^verbatim>\<open>get_connected()\<close> is true of a Connecting client as of a Connected one.\<close>

lemma get_connected_state: "get_connected c \<longleftrightarrow> state_of c \<noteq> Idle"
  by (simp add: get_connected_def state_of_def)

text \<open>The two flags are never both set.\<close>

lemma new_client_exclusive: "flags_exclusive new_client"
  by (simp add: flags_exclusive_def new_client_def)

lemma disconnect_exclusive: "flags_exclusive (fst (disconnect c w))"
  by (simp add: flags_exclusive_def disconnect_def Let_def)

lemma connect_exclusive:
  assumes "flags_exclusive c"
  shows "flags_exclusive (fst (snd (connect c w in_host in_port)))"
proof (cases "connected c")
  case True
  with assms show ?thesis by (simp add: connect_connected)
next
  case nc: False
  show ?thesis
  proof (cases "dns w in_host")
    case None
    with nc assms show ?thesis by (simp add: connect_unresolved flags_exclusive_def)
  next
    case (Some ent)
    with nc show ?thesis
      by (simp add: connect_def gethostbyname_def sys_socket_def sys_connect_def Let_def
          flags_exclusive_def)
  qed
qed

lemma pollable_poll_exclusive:
  assumes "flags_exclusive c"
  shows "flags_exclusive (fst (snd (pollable_poll c w rs ws)))"
proof -
  obtain ret c' w' where pp: "pollable_poll c w rs ws = (ret, c', w')"
    by (cases "pollable_poll c w rs ws")
  show ?thesis
  proof (cases "pending_connect c")
    case True
    with assms have "\<not> connected c" by (simp add: flags_exclusive_def)
    with True show ?thesis
      by (simp add: pollable_poll_pending flags_exclusive_def)
  next
    case np: False
    show ?thesis
    proof (cases "connected c")
      case False
      with np assms show ?thesis by (simp add: pollable_poll_idle)
    next
      case True
      from pollable_poll_connected [OF np True pp]
      have "c' = c \<or> c' = closed_client c" by (auto split: if_splits)
      with assms show ?thesis by (auto simp: pp flags_exclusive_def)
    qed
  qed
qed

section \<open>The claims\<close>

lemma state_of_Connecting: "state_of c = Connecting \<longleftrightarrow> pending_connect c"
  by (simp add: state_of_def)

lemma state_of_Connected: "state_of c = Connected \<longleftrightarrow> \<not> pending_connect c \<and> connected c"
  by (simp add: state_of_def)

lemma state_of_Idle: "state_of c = Idle \<longleftrightarrow> \<not> pending_connect c \<and> \<not> connected c"
  by (simp add: state_of_def)

lemma disconnect_result:
  "disconnect c w =
     (c\<lparr>cli_fd := - 1, pending_connect := False, connected := False\<rparr>,
      if (pending_connect c \<or> connected c) \<and> 0 \<le> cli_fd c
      then w\<lparr>trace := trace w @ [EvClose (cli_fd c)]\<rparr> else w)"
  by (simp add: disconnect_def close_fd_def log_event_def)

text \<open>
  Claim C9. \<^verbatim>\<open>disconnect()\<close> is idempotent. From any state it leaves the client Idle
  (closed) with the descriptor -1, and a second call right after it changes neither
  the client nor the world. The only call it can make is one \<^verbatim>\<open>close\<close> of the
  descriptor, and only when the client was Connecting or Connected with a descriptor
  that is not negative: from the closed state the world, its trace included, is left
  as it was, so no system call is made.
\<close>

theorem disconnect_idempotent:
  "case disconnect c w of (c', w') \<Rightarrow>
     cli_fd c' = - 1 \<and> state_of c' = Idle \<and> disconnect c' w' = (c', w') \<and>
     new_events w w' =
       (if state_of c \<noteq> Idle \<and> 0 \<le> cli_fd c then [EvClose (cli_fd c)] else []) \<and>
     (state_of c = Idle \<longrightarrow> w' = w)"
proof -
  obtain c' w' where d: "disconnect c w = (c', w')"
    by (cases "disconnect c w")
  from d have a: "cli_fd c' = - 1" and b: "state_of c' = Idle"
    by (auto simp: disconnect_result state_of_def)
  from d have i: "disconnect c' w' = (c', w')"
    by (auto simp: disconnect_result)
  from d have n: "new_events w w' =
       (if state_of c \<noteq> Idle \<and> 0 \<le> cli_fd c then [EvClose (cli_fd c)] else [])"
    by (auto simp: disconnect_result state_of_def new_events_def)
  from d have s: "state_of c = Idle \<longrightarrow> w' = w"
    by (auto simp: disconnect_result state_of_def)
  from a b i n s show ?thesis
    unfolding d prod.case by blast
qed

theorem disconnect_idempotent_witness:
  "state_of new_client = Idle \<and>
   disconnect new_client example_world = (new_client, example_world) \<and>
   disconnect (example_client False True 7) example_world =
     (example_client False False (- 1), example_world\<lparr>trace := [EvClose 7]\<rparr>)"
  using disconnect_idempotent [where c = new_client and w = example_world]
    disconnect_idempotent [where c = "example_client False True 7" and w = example_world]
  by (simp add: disconnect_def state_of_def new_client_def example_client_def
        example_world_def close_fd_def log_event_def)

text \<open>
  Claim C3, as amended. For a client that is idle, or whose descriptor is one an
  \<^verbatim>\<open>fd_set\<close> can hold (from 0 to \<^verbatim>\<open>FD_SETSIZE - 1\<close>): \<^verbatim>\<open>pollable_merge_set\<close> puts the
  descriptor into the write set exactly when the client is Connecting, or Connected
  with egress bytes pending; into the read set exactly when it is Connected; it
  returns the larger of \<open>in_max_fd\<close> and the descriptor when the client is Connecting or
  Connected and \<open>in_max_fd\<close> itself when it is idle; the client and the world are
  returned as they were. So a Connected client with an empty egress ring leaves the
  write set as it was.
\<close>

theorem merge_set_interest:
  assumes "state_of c = Idle \<or> (0 \<le> cli_fd c \<and> cli_fd c < FD_SETSIZE)"
  shows "pollable_merge_set c w in_max_fd rset wset =
     Inr (if state_of c = Idle then in_max_fd else max in_max_fd (cli_fd c),
          if state_of c = Connected then insert (cli_fd c) rset else rset,
          if state_of c = Connecting \<or>
             (state_of c = Connected \<and> get_write_buffer_used w \<noteq> 0)
          then insert (cli_fd c) wset else wset,
          c, w)"
proof (cases "state_of c = Idle")
  case True
  then have "\<not> pending_connect c" and "\<not> connected c"
    by (simp_all add: state_of_Idle)
  then show ?thesis
    by (simp add: pollable_merge_set_def state_of_def)
next
  case False
  with assms have r: "FD_SET (cli_fd c) rset = Inr (insert (cli_fd c) rset)"
    and s: "FD_SET (cli_fd c) wset = Inr (insert (cli_fd c) wset)"
    by (simp_all add: FD_SET_def)
  show ?thesis
    by (simp add: pollable_merge_set_def r s state_of_def max_def)
qed

theorem merge_set_interest_witness:
  "(state_of (example_client False True 7) = Idle \<or>
      (0 \<le> cli_fd (example_client False True 7) \<and>
       cli_fd (example_client False True 7) < FD_SETSIZE)) \<and>
   pollable_merge_set (example_client False True 7) example_world 3 {} {} =
     Inr (7, {7}, {}, example_client False True 7, example_world) \<and>
   pollable_merge_set (example_client False True 7)
       (example_world\<lparr>write_buffer := [1, 2]\<rparr>) 9 {} {} =
     Inr (9, {7}, {7}, example_client False True 7,
          example_world\<lparr>write_buffer := [1, 2]\<rparr>) \<and>
   pollable_merge_set (example_client True False 7) example_world 3 {} {} =
     Inr (7, {}, {7}, example_client True False 7, example_world) \<and>
   pollable_merge_set new_client example_world 3 {} {} =
     Inr (3, {}, {}, new_client, example_world)"
  using merge_set_interest [where c = "example_client False True 7" and w = example_world
      and in_max_fd = 3 and rset = "{}" and wset = "{}"]
  by (simp add: pollable_merge_set_def FD_SET_def FD_SETSIZE_def state_of_def new_client_def
        example_client_def example_world_def get_write_buffer_used_def)

text \<open>
  Claim C3 as stated fails: \<^verbatim>\<open>connect()\<close> succeeds at once on a socket with descriptor
  1030, the client is Connected, and \<^verbatim>\<open>pollable_merge_set\<close> registers no read interest:
  its \<^verbatim>\<open>FD_SET\<close> is applied to a descriptor outside the set.
\<close>

theorem merge_set_interest_counterexample:
  "fst (connect new_client crowded_world ''gps'' 2947) = 0 \<and>
   state_of (fst (snd (connect new_client crowded_world ''gps'' 2947))) = Connected \<and>
   cli_fd (fst (snd (connect new_client crowded_world ''gps'' 2947))) = 1030 \<and>
   pollable_merge_set (fst (snd (connect new_client crowded_world ''gps'' 2947)))
       (snd (snd (connect new_client crowded_world ''gps'' 2947))) 3 {} {} =
     Inl (FdSetOutOfRange 1030)"
  by (simp add: connect_def gethostbyname_def sys_socket_def sys_connect_def fcntl_def
        log_event_def Let_def state_of_def pollable_merge_set_def FD_SET_def FD_SETSIZE_def
        get_write_buffer_used_def crowded_world_def resolving_world_def example_world_def
        new_client_def)

text \<open>
  Claim C4. Connecting and write-ready: the service call makes one \<^verbatim>\<open>getsockopt\<close>
  call. With a result that is not negative and a zero \<^verbatim>\<open>SO_ERROR\<close> the client
  becomes Connected, keeping its descriptor, and nothing else is called. Otherwise the
  connect-failure message goes to the ring's error channel, the descriptor is closed
  and the client is Idle with descriptor -1. Either way the call returns 0, the events
  listed are all there is (no \<^verbatim>\<open>recv\<close>, no \<^verbatim>\<open>send\<close>), and the world differs from
  the one before in its trace only.
\<close>

theorem connect_completion:
  assumes "state_of c = Connecting" and "cli_fd c \<in> in_wset"
  shows "case pollable_poll c w in_rset in_wset of (ret, c', w') \<Rightarrow>
     ret = 0 \<and> w' = w\<lparr>trace := trace w'\<rparr> \<and>
     (if 0 \<le> sockopt_ret w \<and> sockopt_err w = 0 then
        state_of c' = Connected \<and> cli_fd c' = cli_fd c \<and>
        new_events w w' = [EvGetSockOpt (cli_fd c) (sockopt_ret w) (sockopt_err w)]
      else
        state_of c' = Idle \<and> cli_fd c' = - 1 \<and>
        new_events w w' =
          [EvGetSockOpt (cli_fd c) (sockopt_ret w) (sockopt_err w),
           EvBufferError (MsgConnectFailed (host c) (port c) (sockopt_err w))] @
          (if 0 \<le> cli_fd c then [EvClose (cli_fd c)] else []))"
proof -
  from assms have p: "pending_connect c" by (simp add: state_of_Connecting)
  show ?thesis
  proof (cases "0 \<le> sockopt_ret w \<and> sockopt_err w = 0")
    case True
    with p assms(2) show ?thesis
      by (simp add: pollable_poll_def getsockopt_def log_event_def new_events_def
            state_of_Connected)
  next
    case False
    with p assms(2) show ?thesis
      by (simp add: pollable_poll_def getsockopt_def buffer_error_def close_fd_def
            log_event_def new_events_def Let_def state_of_Idle not_le)
  qed
qed

theorem connect_completion_witness:
  "state_of (example_client True False 7) = Connecting \<and>
   pollable_poll (example_client True False 7) example_world {7} {7} =
     (0, example_client False True 7, example_world\<lparr>trace := [EvGetSockOpt 7 0 0]\<rparr>) \<and>
   pollable_poll (example_client True False 7) (example_world\<lparr>sockopt_err := 111\<rparr>) {7} {7} =
     (0, example_client False False (- 1),
      example_world\<lparr>sockopt_err := 111,
        trace := [EvGetSockOpt 7 0 111, EvBufferError (MsgConnectFailed ''gps'' 2947 111),
                  EvClose 7]\<rparr>)"
  using connect_completion [where c = "example_client True False 7" and w = example_world
      and in_rset = "{7}" and in_wset = "{7}"]
  by (simp add: pollable_poll_def state_of_def example_client_def new_client_def
        example_world_def getsockopt_def buffer_error_def close_fd_def log_event_def)

text \<open>
  Claim C2. One service call on a Connected, read-ready client, whatever the socket
  delivers (\<open>rx_queue\<close> is any list of chunks, closes and errors, and an empty queue is
  a \<^verbatim>\<open>recv\<close> that would block): the lengths handed to \<^verbatim>\<open>commit_read_buffer_data\<close> add
  up to the sum of the positive results of \<^verbatim>\<open>recv\<close>, and every commit is at most as long as
  the region the reservation before it obtained. "Committed" is read as "handed to the
  ring's commit": whether the ring accepts a commit is the ring's answer. The ingress
  ring itself grows by the lengths of the commits it accepted; when it refused none of
  a chunk received, that is again the sum of the positive results of \<^verbatim>\<open>recv\<close>.
\<close>

theorem ingress_commits_match_receives:
  assumes "state_of c = Connected" and "cli_fd c \<in> in_rset"
  shows "case pollable_poll c w in_rset in_wset of (ret, c', w') \<Rightarrow>
     commit_total (new_events w w') = recv_total (new_events w w') \<and>
     within_reservation 0 (new_events w w') \<and>
     length (read_buffer w') = length (read_buffer w) + accepted_total (new_events w w') \<and>
     (\<not> commit_refused (new_events w w') \<longrightarrow>
        accepted_total (new_events w w') = recv_total (new_events w w'))"
proof -
  obtain ret c' w' where pp: "pollable_poll c w in_rset in_wset = (ret, c', w')"
    by (cases "pollable_poll c w in_rset in_wset")
  from assms(1) have np: "\<not> pending_connect c" and con: "connected c"
    by (simp_all add: state_of_Connected)
  let ?a = "get_read_buffer_available w"
  from pollable_poll_connected [OF np con pp] obtain e lev still wevs where
    t: "trace w' = trace w @ read_prefix (cli_fd c \<in> in_rset) ?a @ lev @ wevs"
    and L0: "if cli_fd c \<in> in_rset
      then loop_trace (cli_fd c) (host c) (port c) ?a e lev
      else e = ReadNotReady \<and> lev = []"
    and W: "if returned e then wevs = [] \<and> c' = closed_client c
      else write_trace (cli_fd c) (host c) (port c) (cli_fd c \<in> in_wset)
             (length (write_buffer w)) still wevs \<and>
           c' = (if still then c else closed_client c)"
    by blast
  from L0 assms(2) have L: "loop_trace (cli_fd c) (host c) (port c) ?a e lev" by simp
  from t assms(2) have ev: "new_events w w' = read_prefix True ?a @ lev @ wevs"
    by (simp add: new_events_append)
  from W have wz: "commit_total wevs = 0" "recv_total wevs = 0"
    and ww: "\<And>cap. within_reservation cap wevs"
    using write_trace_ingress [of "cli_fd c" "host c" "port c" "cli_fd c \<in> in_wset"
        "length (write_buffer w)" still wevs]
    by (cases "returned e"; simp)+
  have tot: "commit_total (new_events w w') = recv_total (new_events w w')"
    using loop_trace_totals [OF L] wz
    by (simp add: ev commit_total_append recv_total_append read_prefix_ingress)
  have wr: "within_reservation 0 (new_events w w')"
    using loop_trace_within [OF L ww] by (simp add: ev read_prefix_ingress)
  have gr: "length (read_buffer w') = length (read_buffer w) + accepted_total (new_events w w')"
    using ring_grows_new_events [OF pollable_poll_grows [OF np pp] t] t
    by (simp add: new_events_append)
  have acc: "accepted_total (new_events w w') = recv_total (new_events w w')"
    if "\<not> commit_refused (new_events w w')"
    using accepted_total_all [OF that] tot by simp
  from tot wr gr acc show ?thesis unfolding pp prod.case by simp
qed

theorem ingress_commits_match_receives_witness:
  "state_of (example_client False True 7) = Connected \<and>
   new_events example_world (snd (snd (pollable_poll (example_client False True 7)
     (example_world\<lparr>read_capacity := 4,
        rx_queue := [RxData [1, 2, 3], RxData [4, 5], RxErrno 104]\<rparr>) {7} {}))) =
     [EvReserve 4 4, EvRecv 7 4 3 0, EvCommit 3 True,
      EvReserve 1 1, EvRecv 7 1 1 0, EvCommit 1 True] \<and>
   commit_total [EvReserve 4 4, EvRecv 7 4 3 0, EvCommit 3 True,
      EvReserve 1 1, EvRecv 7 1 1 0, EvCommit 1 True] = 4 \<and>
   recv_total [EvReserve 4 4, EvRecv 7 4 3 0, EvCommit 3 True,
      EvReserve 1 1, EvRecv 7 1 1 0, EvCommit 1 True] = 4"
  using ingress_commits_match_receives [where c = "example_client False True 7"
      and w = "example_world\<lparr>read_capacity := 4,
        rx_queue := [RxData [1, 2, 3], RxData [4, 5], RxErrno 104]\<rparr>"
      and in_rset = "{7}" and in_wset = "{}"]
  by (simp add: pollable_poll_def poll_read_def poll_write_def read_body_def
      zero_copy_reserve_read_buffer_data_def commit_read_buffer_data_def recv_def
      get_read_buffer_available_def get_write_buffer_used_def log_event_def Let_def
      example_world_def example_client_def new_client_def new_events_def state_of_def)

text \<open>
  Claim C10. If the ring refuses the commit of a chunk that \<^verbatim>\<open>recv\<close> delivered (a commit
  of \<open>n > 0\<close> bytes answered with false), the service call returns 0 with the client
  disconnected (Idle, descriptor -1). After the refused commit the call makes no other
  call than the \<^verbatim>\<open>close\<close> of the descriptor, so no further \<^verbatim>\<open>recv\<close>; it calls
  \<^verbatim>\<open>buffer_error\<close> nowhere and \<^verbatim>\<open>send\<close> nowhere.
\<close>

theorem refused_commit_disconnects:
  assumes "state_of c = Connected"
  shows "case pollable_poll c w in_rset in_wset of (ret, c', w') \<Rightarrow>
     stops_at_refused_commit (cli_fd c) (new_events w w') \<and>
     (commit_refused (new_events w w') \<longrightarrow>
        ret = 0 \<and> state_of c' = Idle \<and> cli_fd c' = - 1 \<and>
        error_channel (new_events w w') = [] \<and> send_events (new_events w w') = [])"
proof -
  obtain ret c' w' where pp: "pollable_poll c w in_rset in_wset = (ret, c', w')"
    by (cases "pollable_poll c w in_rset in_wset")
  from assms(1) have np: "\<not> pending_connect c" and con: "connected c"
    by (simp_all add: state_of_Connected)
  let ?a = "get_read_buffer_available w"
  let ?pre = "read_prefix (cli_fd c \<in> in_rset) ?a"
  from pollable_poll_connected [OF np con pp] obtain e lev still wevs where
    r0: "ret = 0"
    and t: "trace w' = trace w @ ?pre @ lev @ wevs"
    and L0: "if cli_fd c \<in> in_rset
      then loop_trace (cli_fd c) (host c) (port c) ?a e lev
      else e = ReadNotReady \<and> lev = []"
    and W: "if returned e then wevs = [] \<and> c' = closed_client c
      else write_trace (cli_fd c) (host c) (port c) (cli_fd c \<in> in_wset)
             (length (write_buffer w)) still wevs \<and>
           c' = (if still then c else closed_client c)"
    by blast
  from t have ev: "new_events w w' = ?pre @ lev @ wevs" by (rule new_events_append)
  have wn: "\<not> commit_refused wevs"
    using W write_trace_no_commit [of "cli_fd c" "host c" "port c" "cli_fd c \<in> in_wset"
        "length (write_buffer w)" still wevs]
    by (cases "returned e") simp_all
  have ws: "stops_at_refused_commit (cli_fd c) wevs"
    using wn by (induction wevs rule: commit_refused.induct) auto
  show ?thesis
  proof (cases "commit_refused lev")
    case False
    then have "\<not> commit_refused (new_events w w')"
      using wn by (simp add: ev commit_refused_append read_prefix_no_commit)
    moreover have "stops_at_refused_commit (cli_fd c) (new_events w w')"
      using False ws by (simp add: ev stops_append read_prefix_no_commit)
    ultimately show ?thesis by (simp add: pp)
  next
    case True
    with L0 have rdy: "cli_fd c \<in> in_rset"
      by (cases "cli_fd c \<in> in_rset") simp_all
    with L0 have L: "loop_trace (cli_fd c) (host c) (port c) ?a e lev" by simp
    from loop_trace_refused [OF L] True have e: "e = ReturnCommitFailed" by simp
    with W have w0: "wevs = []" and c': "c' = closed_client c" by simp_all
    from loop_trace_refused_stops [OF L e]
    have "stops_at_refused_commit (cli_fd c) lev" "error_channel lev = []"
      "send_events lev = []" by simp_all
    then have "stops_at_refused_commit (cli_fd c) (new_events w w')"
      "error_channel (new_events w w') = []" "send_events (new_events w w') = []"
      by (simp_all add: ev w0 stops_append error_channel_append send_events_append
          read_prefix_no_commit)
    moreover have "state_of c' = Idle" "cli_fd c' = - 1"
      by (simp_all add: c' state_of_Idle)
    ultimately show ?thesis using r0 by (simp add: pp)
  qed
qed

theorem refused_commit_disconnects_witness:
  "state_of (example_client False True 7) = Connected \<and>
   pollable_poll (example_client False True 7)
     (example_world\<lparr>write_buffer := [9], commit_accepts := (\<lambda>used n. used = 0),
        rx_queue := [RxData [1, 2, 3], RxData [4, 5]], tx_queue := [TxAccept 1]\<rparr>) {7} {7} =
     (0, example_client False False (- 1),
      example_world\<lparr>read_buffer := [1, 2, 3], write_buffer := [9],
        commit_accepts := (\<lambda>used n. used = 0),
        rx_queue := [], tx_queue := [TxAccept 1],
        trace := [EvReserve 16 16, EvRecv 7 16 3 0, EvCommit 3 True,
                  EvReserve 13 13, EvRecv 7 13 2 0, EvCommit 2 False, EvClose 7]\<rparr>) \<and>
   commit_refused [EvReserve 16 16, EvRecv 7 16 3 0, EvCommit 3 True,
                  EvReserve 13 13, EvRecv 7 13 2 0, EvCommit 2 False, EvClose 7]"
  using refused_commit_disconnects [where c = "example_client False True 7"
      and w = "example_world\<lparr>write_buffer := [9], commit_accepts := (\<lambda>used n. used = 0),
        rx_queue := [RxData [1, 2, 3], RxData [4, 5]], tx_queue := [TxAccept 1]\<rparr>"
      and in_rset = "{7}" and in_wset = "{7}"]
  by (simp add: pollable_poll_def poll_read_def poll_write_def read_body_def
      zero_copy_reserve_read_buffer_data_def commit_read_buffer_data_def recv_def
      get_read_buffer_available_def get_write_buffer_used_def log_event_def Let_def
      disconnect_def close_fd_def
      example_world_def example_client_def new_client_def new_events_def state_of_def)

text \<open>
  Claim C8. The read loop terminates: the recursion that stands for it is well founded
  from every client and world (\<open>read_loop_dom\<close>, the accessible part of its call relation,
  holds everywhere), and a loop entered with \<open>a\<close> free ingress bytes makes at most \<open>a\<close>
  reservations and at most \<open>a\<close> calls of \<^verbatim>\<open>recv\<close>. When it is over, the ring has no free
  space, or the loop has met a reason to stop: a \<^verbatim>\<open>recv\<close> that returned no data (it would
  block, was interrupted, failed, or the peer closed), a reservation of length zero, or
  a commit the ring refused. No reservation and no \<^verbatim>\<open>recv\<close> follows a \<^verbatim>\<open>recv\<close> that
  returned no data, and a reservation of length zero is followed by one commit of zero
  bytes and nothing else: the loop does not go round again.
\<close>

theorem read_loop_terminates:
  assumes "connected c"
  shows "read_loop_dom (c, w) \<and>
     (case read_loop c w of (e, c', w') \<Rightarrow>
        reserve_calls (new_events w w') \<le> get_read_buffer_available w \<and>
        recv_calls (new_events w w') \<le> get_read_buffer_available w \<and>
        (get_read_buffer_available w' = 0 \<or> stop_met (new_events w w')) \<and>
        recv_ends (new_events w w') \<and>
        zero_reservation_breaks (new_events w w'))"
proof -
  obtain e c' w' where rl: "read_loop c w = (e, c', w')"
    by (cases "read_loop c w")
  from read_loop_trace [OF assms rl] obtain evs where
    t: "trace w' = trace w @ evs"
    and L: "loop_trace (cli_fd c) (host c) (port c) (get_read_buffer_available w) e evs"
    by blast
  from t have ev: "new_events w w' = evs" by (rule new_events_append)
  have s: "get_read_buffer_available w' = 0 \<or> stop_met evs"
  proof (cases "e = LoopCondFalse")
    case True
    from rl have "read_loop c w = (LoopCondFalse, c', w')" unfolding True .
    from read_loop_cond_false [OF assms this] show ?thesis ..
  next
    case False
    from loop_trace_stop_met [OF L False] show ?thesis ..
  qed
  from loop_trace_calls [OF L] s loop_trace_recv_ends [OF L] loop_trace_zero_reservation [OF L]
    read_loop_total [of c w]
  show ?thesis unfolding rl prod.case ev by blast
qed

theorem read_loop_terminates_witness:
  "connected (example_client False True 7) \<and>
   read_loop (example_client False True 7)
     (example_world\<lparr>rx_queue := [RxData [1, 2, 3]]\<rparr>) =
     (BreakRetry, example_client False True 7,
      example_world\<lparr>read_buffer := [1, 2, 3], rx_queue := [],
        trace := [EvReserve 16 16, EvRecv 7 16 3 0, EvCommit 3 True,
                  EvReserve 13 13, EvRecv 7 13 (- 1) 11, EvCommit 0 True]\<rparr>) \<and>
   read_loop (example_client False True 7)
     (example_world\<lparr>reserve_grant := (\<lambda>n. 0), rx_queue := [RxData [1, 2, 3]]\<rparr>) =
     (BreakNoReservation, example_client False True 7,
      example_world\<lparr>reserve_grant := (\<lambda>n. 0), rx_queue := [RxData [1, 2, 3]],
        trace := [EvReserve 16 0, EvCommit 0 True]\<rparr>)"
  using read_loop_terminates [where c = "example_client False True 7"
      and w = "example_world\<lparr>rx_queue := [RxData [1, 2, 3]]\<rparr>"]
  by (simp add: read_body_def
      zero_copy_reserve_read_buffer_data_def commit_read_buffer_data_def recv_def
      get_read_buffer_available_def log_event_def Let_def EAGAIN_def EINTR_def
      example_world_def example_client_def new_client_def)

text \<open>
  Claim C6, as amended. The service call returns 0 whatever happens, and the messages
  it pushes through the ring's error channel are, in order, exactly the failures it
  met: a ConnectFailure for a failed \<^verbatim>\<open>getsockopt\<close> or a non-zero \<^verbatim>\<open>SO_ERROR\<close>, a
  ReadFailure or WriteFailure for a \<^verbatim>\<open>recv\<close> or \<^verbatim>\<open>send\<close> that failed with an errno the
  source does not retry on, a RemoteClosed for a \<^verbatim>\<open>recv\<close> or \<^verbatim>\<open>send\<close> that returned 0.
  A ResolutionFailure or a SocketCreateFailure is not reported that way: it happens in
  \<^verbatim>\<open>connect()\<close>, which returns -1 for it and calls \<^verbatim>\<open>buffer_error\<close> nowhere.
\<close>

theorem transport_errors_reported:
  "(case pollable_poll c w rs ws of (ret, c', w') \<Rightarrow> ret = 0 \<and> reported (new_events w w')) \<and>
   (\<not> connected c \<and> (dns w in_host = None \<or> socket_ret w < 0) \<longrightarrow>
      (case connect c w in_host in_port of (ret, c', w') \<Rightarrow>
         ret = - 1 \<and> error_channel (new_events w w') = [] \<and>
         failures (new_events w w') =
           (if dns w in_host = None then [ResolutionFailure] else [SocketCreateFailure])))"
proof -
  obtain ret c' w' where pp: "pollable_poll c w rs ws = (ret, c', w')"
    by (cases "pollable_poll c w rs ws")
  from pollable_poll_reported [OF pp]
  have a: "case pollable_poll c w rs ws of (ret, c', w') \<Rightarrow>
      ret = 0 \<and> reported (new_events w w')"
    by (simp add: pp)
  have b: "case connect c w in_host in_port of (ret, c', w') \<Rightarrow>
         ret = - 1 \<and> error_channel (new_events w w') = [] \<and>
         failures (new_events w w') =
           (if dns w in_host = None then [ResolutionFailure] else [SocketCreateFailure])"
    if nc: "\<not> connected c" and f: "dns w in_host = None \<or> socket_ret w < 0"
  proof (cases "dns w in_host")
    case None
    with nc show ?thesis
      by (simp add: connect_unresolved new_events_def)
  next
    case (Some ent)
    with f have "socket_ret w < 0" by simp
    with nc Some show ?thesis
      by (simp add: connect_no_socket new_events_def)
  qed
  from a b show ?thesis by simp
qed

theorem transport_errors_reported_witness:
  "pollable_poll (example_client False True 7)
     (example_world\<lparr>rx_queue := [RxErrno 104]\<rparr>) {7} {} =
     (0, example_client False False (- 1),
      example_world\<lparr>rx_queue := [],
        trace := [EvReserve 16 16, EvRecv 7 16 (- 1) 104, EvCommit 0 True,
                  EvBufferError (MsgReadError ''gps'' 2947 104), EvClose 7]\<rparr>) \<and>
   \<not> connected new_client \<and> socket_ret resolving_world < 0 \<and>
   dns resolving_world ''gps'' \<noteq> None \<and>
   fst (connect new_client resolving_world ''gps'' 2947) = - 1 \<and>
   trace (snd (snd (connect new_client resolving_world ''gps'' 2947))) =
     [EvGetHostByName ''gps'' True, EvSocket (- 1), EvLog (MsgConnectFailed ''gps'' 2947 24)]"
  using transport_errors_reported [where c = new_client and w = resolving_world
      and in_host = "''gps''" and in_port = 2947]
  by (simp add: pollable_poll_def poll_read_def poll_write_def read_body_def
      zero_copy_reserve_read_buffer_data_def commit_read_buffer_data_def recv_def
      get_read_buffer_available_def get_write_buffer_used_def log_event_def Let_def
      disconnect_def close_fd_def buffer_error_def EAGAIN_def EINTR_def EWOULDBLOCK_def
      connect_def gethostbyname_def sys_socket_def resolving_world_def
      example_world_def example_client_def new_client_def)

text \<open>
  Claim C6 as stated fails: the name does not resolve, \<^verbatim>\<open>connect()\<close> returns -1, and the
  ResolutionFailure met is on the message bus only, the error channel stays empty.
\<close>

theorem transport_errors_counterexample:
  "connect new_client example_world ''gps'' 2947 =
     (- 1, new_client,
      example_world\<lparr>trace := [EvGetHostByName ''gps'' False,
         EvLog (MsgResolveFailed ''gps'')]\<rparr>) \<and>
   failures [EvGetHostByName ''gps'' False, EvLog (MsgResolveFailed ''gps'')] =
     [ResolutionFailure] \<and>
   error_channel [EvGetHostByName ''gps'' False, EvLog (MsgResolveFailed ''gps'')] = []"
  by (simp add: connect_def gethostbyname_def log_event_def example_world_def new_client_def)

text \<open>
  Claim C7, as amended. On an idle client (neither Connecting nor Connected): if the
  name does not resolve, \<^verbatim>\<open>connect()\<close> returns -1 with host, port, descriptor and both
  connection flags as they were (only the resolver's result \<^verbatim>\<open>client_host\<close> is
  overwritten, with null), having called \<^verbatim>\<open>gethostbyname\<close> and the error log and nothing
  else. If the name resolves and \<^verbatim>\<open>socket()\<close> fails, it returns -1 with the client still
  Idle and no call made on any descriptor, but with host and port already set to the
  endpoint asked for and the descriptor member holding the negative result of
  \<^verbatim>\<open>socket()\<close>.
\<close>

theorem connect_early_failure:
  assumes "state_of c = Idle"
  shows "(dns w in_host = None \<longrightarrow>
       (case connect c w in_host in_port of (ret, c', w') \<Rightarrow>
          ret = - 1 \<and> c' = c\<lparr>client_host := None\<rparr> \<and>
          new_events w w' =
            [EvGetHostByName in_host False, EvLog (MsgResolveFailed in_host)])) \<and>
    (dns w in_host \<noteq> None \<and> socket_ret w < 0 \<longrightarrow>
       (case connect c w in_host in_port of (ret, c', w') \<Rightarrow>
          ret = - 1 \<and> state_of c' = Idle \<and> host c' = in_host \<and> port c' = in_port \<and>
          cli_fd c' = socket_ret w \<and>
          new_events w w' =
            [EvGetHostByName in_host True, EvSocket (socket_ret w),
             EvLog (MsgConnectFailed in_host in_port (socket_errno w))]))"
proof -
  from assms have nc: "\<not> connected c" and np: "\<not> pending_connect c"
    by (simp_all add: state_of_Idle)
  have a: "case connect c w in_host in_port of (ret, c', w') \<Rightarrow>
          ret = - 1 \<and> c' = c\<lparr>client_host := None\<rparr> \<and>
          new_events w w' =
            [EvGetHostByName in_host False, EvLog (MsgResolveFailed in_host)]"
    if "dns w in_host = None"
    using that nc by (simp add: connect_unresolved new_events_def)
  have b: "case connect c w in_host in_port of (ret, c', w') \<Rightarrow>
          ret = - 1 \<and> state_of c' = Idle \<and> host c' = in_host \<and> port c' = in_port \<and>
          cli_fd c' = socket_ret w \<and>
          new_events w w' =
            [EvGetHostByName in_host True, EvSocket (socket_ret w),
             EvLog (MsgConnectFailed in_host in_port (socket_errno w))]"
    if "dns w in_host \<noteq> None" and "socket_ret w < 0"
  proof -
    from that(1) obtain ent where "dns w in_host = Some ent" by auto
    with that(2) nc np show ?thesis
      by (simp add: connect_no_socket new_events_def state_of_Idle)
  qed
  from a b show ?thesis by simp
qed

theorem connect_early_failure_witness:
  "state_of new_client = Idle \<and> dns example_world ''gps'' = None \<and>
   connect new_client example_world ''gps'' 2947 =
     (- 1, new_client,
      example_world\<lparr>trace := [EvGetHostByName ''gps'' False,
         EvLog (MsgResolveFailed ''gps'')]\<rparr>) \<and>
   dns resolving_world ''gps'' \<noteq> None \<and> socket_ret resolving_world < 0 \<and>
   fst (connect new_client resolving_world ''gps'' 2947) = - 1 \<and>
   host (fst (snd (connect new_client resolving_world ''gps'' 2947))) = ''gps'' \<and>
   cli_fd (fst (snd (connect new_client resolving_world ''gps'' 2947))) = - 1"
  using connect_early_failure [where c = new_client and w = example_world
      and in_host = "''gps''" and in_port = 2947]
    connect_early_failure [where c = new_client and w = resolving_world
      and in_host = "''gps''" and in_port = 2947]
  by (simp add: connect_def gethostbyname_def sys_socket_def log_event_def Let_def
      resolving_world_def example_world_def new_client_def state_of_def)

text \<open>
  Claim C7 as stated fails: \<^verbatim>\<open>socket()\<close> fails, \<^verbatim>\<open>connect()\<close> returns -1, and host and
  port are no longer what they were before the call.
\<close>

theorem connect_early_failure_counterexample:
  "dns resolving_world ''gps'' \<noteq> None \<and> socket_ret resolving_world < 0 \<and>
   fst (connect new_client resolving_world ''gps'' 2947) = - 1 \<and>
   host new_client = [] \<and> port new_client = 0 \<and>
   host (fst (snd (connect new_client resolving_world ''gps'' 2947))) = ''gps'' \<and>
   port (fst (snd (connect new_client resolving_world ''gps'' 2947))) = 2947"
  by (simp add: connect_def gethostbyname_def sys_socket_def log_event_def Let_def
      resolving_world_def example_world_def new_client_def)

text \<open>
  Claim C1, the code at an input where it departs from the claim. The client is
  Connecting on descriptor 5; \<^verbatim>\<open>connect()\<close> is called again and, \<^verbatim>\<open>connected\<close> being the
  only flag it looks at, goes ahead: it returns 0, host and port are the new ones, the
  descriptor member is the new socket 6, and descriptor 5 is never closed. Called on a
  Connected client it does return -1 with everything as it was (\<open>connect_connected\<close>).
\<close>

theorem connect_while_connecting:
  "state_of (example_client True False 5) = Connecting \<and>
   fst (connect (example_client True False 5)
     (resolving_world\<lparr>socket_ret := 6, connect_errno := EINPROGRESS\<rparr>) ''other'' 80) = 0 \<and>
   cli_fd (fst (snd (connect (example_client True False 5)
     (resolving_world\<lparr>socket_ret := 6, connect_errno := EINPROGRESS\<rparr>) ''other'' 80))) = 6 \<and>
   host (fst (snd (connect (example_client True False 5)
     (resolving_world\<lparr>socket_ret := 6, connect_errno := EINPROGRESS\<rparr>) ''other'' 80)))
     = ''other'' \<and>
   port (fst (snd (connect (example_client True False 5)
     (resolving_world\<lparr>socket_ret := 6, connect_errno := EINPROGRESS\<rparr>) ''other'' 80))) = 80 \<and>
   trace (snd (snd (connect (example_client True False 5)
     (resolving_world\<lparr>socket_ret := 6, connect_errno := EINPROGRESS\<rparr>) ''other'' 80))) =
     [EvGetHostByName ''other'' True, EvSocket 6, EvFcntl 6, EvFcntl 6,
      EvConnect 6 (- 1) 115]"
  by (simp add: connect_def gethostbyname_def sys_socket_def sys_connect_def fcntl_def
      log_event_def Let_def EINPROGRESS_def state_of_def
      resolving_world_def example_world_def example_client_def new_client_def)

text \<open>
  Claim C5, as amended. A service call on a Connected, write-ready client with
  \<open>M > 0\<close> pending egress bytes, whose read-class work in that call did not disconnect
  the client, makes exactly one \<^verbatim>\<open>send\<close>, of all \<open>M\<close> pending bytes. If that \<^verbatim>\<open>send\<close>
  takes \<open>n\<close> bytes with \<open>0 < n < M\<close>, the client stays Connected, the first \<open>n\<close> pending
  bytes are on the wire and the egress ring holds the other \<open>M - n\<close>, in order. A
  following such call whose \<^verbatim>\<open>send\<close> has room for them sends exactly those \<open>M - n\<close>
  bytes: the ring is empty and the wire has got the \<open>M\<close> bytes once each, in order.
\<close>

theorem short_send_keeps_remainder:
  assumes st: "state_of c = Connected" and rdy: "cli_fd c \<in> in_wset"
    and ne: "write_buffer w \<noteq> []"
    and nr: "\<not> returned (fst (poll_read c w in_rset))"
  shows "case pollable_poll c w in_rset in_wset of (ret, c1, w1) \<Rightarrow>
     (\<exists>r. send_events (new_events w w1) = [(length (write_buffer w), r)]) \<and>
     (\<forall>n q. tx_queue w = TxAccept n # q \<and> 0 < n \<and> n < length (write_buffer w) \<longrightarrow>
        send_events (new_events w w1) = [(length (write_buffer w), int n)] \<and>
        state_of c1 = Connected \<and>
        write_buffer w1 = drop n (write_buffer w) \<and>
        length (write_buffer w1) = length (write_buffer w) - n \<and>
        wire w1 = wire w @ take n (write_buffer w) \<and>
        (\<forall>k q' rs2 ws2.
           q = TxAccept k # q' \<and> length (write_buffer w) - n \<le> k \<and> cli_fd c \<in> ws2 \<and>
           \<not> returned (fst (poll_read c1 w1 rs2)) \<longrightarrow>
           (case pollable_poll c1 w1 rs2 ws2 of (ret2, c2, w2) \<Rightarrow>
              send_events (new_events w1 w2) =
                [(length (write_buffer w) - n, int (length (write_buffer w) - n))] \<and>
              write_buffer w2 = [] \<and>
              wire w2 = wire w @ write_buffer w)))"
proof -
  obtain ret c1 w1 where pp: "pollable_poll c w in_rset in_wset = (ret, c1, w1)"
    by (cases "pollable_poll c w in_rset in_wset")
  from st have np: "\<not> pending_connect c" and con: "connected c"
    by (simp_all add: state_of_Connected)
  let ?M = "length (write_buffer w)"
  have one: "\<exists>r. send_events (new_events w w1) = [(?M, r)]"
    by (rule pollable_poll_one_send [OF np con rdy ne nr pp])
  have short: "send_events (new_events w w1) = [(?M, int n)] \<and>
        state_of c1 = Connected \<and>
        write_buffer w1 = drop n (write_buffer w) \<and>
        length (write_buffer w1) = ?M - n \<and>
        wire w1 = wire w @ take n (write_buffer w) \<and>
        (\<forall>k q' rs2 ws2.
           q = TxAccept k # q' \<and> ?M - n \<le> k \<and> cli_fd c \<in> ws2 \<and>
           \<not> returned (fst (poll_read c1 w1 rs2)) \<longrightarrow>
           (case pollable_poll c1 w1 rs2 ws2 of (ret2, c2, w2) \<Rightarrow>
              send_events (new_events w1 w2) = [(?M - n, int (?M - n))] \<and>
              write_buffer w2 = [] \<and>
              wire w2 = wire w @ write_buffer w))"
    if tx: "tx_queue w = TxAccept n # q" and n0: "0 < n" and nM: "n < ?M" for n q
  proof -
    from nM have mn: "min n ?M = n" by simp
    note a = pollable_poll_accept [OF np con rdy ne nr tx n0 pp, unfolded mn]
    from a(1) st have st1: "state_of c1 = Connected" by simp
    from a(2) nM have len1: "length (write_buffer w1) = ?M - n" by simp
    have second: "case pollable_poll c1 w1 rs2 ws2 of (ret2, c2, w2) \<Rightarrow>
              send_events (new_events w1 w2) = [(?M - n, int (?M - n))] \<and>
              write_buffer w2 = [] \<and>
              wire w2 = wire w @ write_buffer w"
      if q: "q = TxAccept k # q'" and k: "?M - n \<le> k" and rdy2: "cli_fd c \<in> ws2"
        and nr2: "\<not> returned (fst (poll_read c1 w1 rs2))" for k q' rs2 ws2
    proof -
      obtain ret2 c2 w2 where pp2: "pollable_poll c1 w1 rs2 ws2 = (ret2, c2, w2)"
        by (cases "pollable_poll c1 w1 rs2 ws2")
      from len1 nM have ne1: "write_buffer w1 \<noteq> []" by auto
      from a(4) q have tx1: "tx_queue w1 = TxAccept k # q'" by simp
      from k nM have k0: "0 < k" by simp
      from k len1 have mk: "min k (length (write_buffer w1)) = ?M - n" by simp
      from np con rdy2 a(1) have np1: "\<not> pending_connect c1" and con1: "connected c1"
        and rdy1: "cli_fd c1 \<in> ws2" by simp_all
      note b = pollable_poll_accept [OF np1 con1 rdy1 ne1 nr2 tx1 k0 pp2, unfolded mk]
      from b(2) a(2) have "write_buffer w2 = []" by simp
      moreover from b(3) a(2) a(3) have "wire w2 = wire w @ write_buffer w" by simp
      moreover from b(5) len1
      have "send_events (new_events w1 w2) = [(?M - n, int (?M - n))]" by simp
      ultimately show ?thesis by (simp add: pp2)
    qed
    from a(5) st1 a(2) len1 a(3) second show ?thesis by simp
  qed
  show ?thesis unfolding pp prod.case
    by (rule conjI [OF one]) (intro allI impI, elim conjE, rule short)
qed

theorem short_send_keeps_remainder_witness:
  "state_of (example_client False True 7) = Connected \<and>
   \<not> returned (fst (poll_read (example_client False True 7)
     (example_world\<lparr>write_buffer := [1, 2, 3, 4, 5], rx_queue := [RxData [9]],
        tx_queue := [TxAccept 2, TxAccept 8]\<rparr>) {7})) \<and>
   pollable_poll (example_client False True 7)
     (example_world\<lparr>write_buffer := [1, 2, 3, 4, 5], rx_queue := [RxData [9]],
        tx_queue := [TxAccept 2, TxAccept 8]\<rparr>) {7} {7} =
     (0, example_client False True 7,
      example_world\<lparr>read_buffer := [9], write_buffer := [3, 4, 5], rx_queue := [],
        tx_queue := [TxAccept 8], wire := [1, 2],
        trace := [EvReserve 16 16, EvRecv 7 16 1 0, EvCommit 1 True,
                  EvReserve 15 15, EvRecv 7 15 (- 1) 11, EvCommit 0 True,
                  EvPeek 5 5, EvSend 7 5 2 0, EvPeekFree, EvConsume 2]\<rparr>) \<and>
   pollable_poll (example_client False True 7)
     (example_world\<lparr>read_buffer := [9], write_buffer := [3, 4, 5], rx_queue := [],
        tx_queue := [TxAccept 8], wire := [1, 2]\<rparr>) {} {7} =
     (0, example_client False True 7,
      example_world\<lparr>read_buffer := [9], write_buffer := [], rx_queue := [],
        tx_queue := [], wire := [1, 2, 3, 4, 5],
        trace := [EvPeek 3 3, EvSend 7 3 3 0, EvPeekFree, EvConsume 3]\<rparr>)"
  using short_send_keeps_remainder [where c = "example_client False True 7"
      and w = "example_world\<lparr>write_buffer := [1, 2, 3, 4, 5], rx_queue := [RxData [9]],
        tx_queue := [TxAccept 2, TxAccept 8]\<rparr>"
      and in_rset = "{7}" and in_wset = "{7}"]
  by (simp add: pollable_poll_def poll_read_def poll_write_def read_body_def
      zero_copy_reserve_read_buffer_data_def commit_read_buffer_data_def recv_def send_def
      zero_copy_peek_write_buffer_data_def peek_free_write_buffer_data_def
      consume_write_buffer_data_def
      get_read_buffer_available_def get_write_buffer_used_def log_event_def Let_def
      EAGAIN_def EINTR_def EWOULDBLOCK_def
      example_world_def example_client_def new_client_def state_of_def)

text \<open>
  Claim C5 as stated fails: the client is Connected and write-ready with two bytes
  pending, the descriptor is read-ready as well and the peer has closed. The read-class
  work disconnects and returns, and the call makes no \<^verbatim>\<open>send\<close>.
\<close>

theorem short_send_counterexample:
  "state_of (example_client False True 7) = Connected \<and>
   length (write_buffer (example_world\<lparr>write_buffer := [1, 2], rx_queue := [RxClosed],
        tx_queue := [TxAccept 2]\<rparr>)) = 2 \<and>
   pollable_poll (example_client False True 7)
     (example_world\<lparr>write_buffer := [1, 2], rx_queue := [RxClosed],
        tx_queue := [TxAccept 2]\<rparr>) {7} {7} =
     (0, example_client False False (- 1),
      example_world\<lparr>write_buffer := [1, 2], rx_queue := [], tx_queue := [TxAccept 2],
        trace := [EvReserve 16 16, EvRecv 7 16 0 0, EvCommit 0 True,
                  EvBufferError (MsgReadClosed ''gps'' 2947), EvClose 7]\<rparr>) \<and>
   send_events [EvReserve 16 16, EvRecv 7 16 0 0, EvCommit 0 True,
                  EvBufferError (MsgReadClosed ''gps'' 2947), EvClose 7] = []"
  by (simp add: pollable_poll_def poll_read_def poll_write_def read_body_def
      zero_copy_reserve_read_buffer_data_def commit_read_buffer_data_def recv_def
      buffer_error_def disconnect_def close_fd_def
      get_read_buffer_available_def get_write_buffer_used_def log_event_def Let_def
      example_world_def example_client_def new_client_def state_of_def)

end
